theory Spec2Isabelle
  imports Complex_Main "HOL-Library.Sublist"
begin

section \<open>Data model\<close>

text \<open>
  The worker of \<^verbatim>\<open>python/cog/server/redis_queue.py\<close> is embedded with explicit
  state passing. Everything outside the file (the Redis server, the prediction runner,
  the input type, the output encoder, the clock and the signals) is a parameter: a record
  of operations over a runner state \<open>'r\<close> and a world state \<open>'w\<close>. Every
  theorem holds for every such environment.
\<close>

datatype json =
  JNull | JBool bool | JNum real | JStr string | JList "json list" | JObj "(string \<times> json) list"

text \<open>Bytes received from Redis: either the UTF-8 encoding of a text, or bytes that
  \<^verbatim>\<open>decode()\<close> rejects.\<close>

datatype bytes = Utf8 string | Undecodable

datatype exn =
    TimeoutError string
  | AssertionError
  | ValidationError string
  | KeyError string
  | TypeError string
  | IndexError string
  | JSONDecodeError string
  | UnicodeDecodeError string
  | RedisError string
  | OtherError string

text \<open>\<^verbatim>\<open>str(error)\<close>. A \<open>KeyError\<close> carries the \<^verbatim>\<open>repr\<close> of its key, which is what
  \<^verbatim>\<open>str\<close> shows; a bare \<^verbatim>\<open>assert\<close> has the empty message.\<close>

fun str_exn :: "exn \<Rightarrow> string" where
  "str_exn (TimeoutError m) = m"
| "str_exn AssertionError = []"
| "str_exn (ValidationError m) = m"
| "str_exn (KeyError m) = m"
| "str_exn (TypeError m) = m"
| "str_exn (IndexError m) = m"
| "str_exn (JSONDecodeError m) = m"
| "str_exn (UnicodeDecodeError m) = m"
| "str_exn (RedisError m) = m"
| "str_exn (OtherError m) = m"

datatype status = PROCESSING | SUCCEEDED | FAILED

text \<open>The \<^verbatim>\<open>output\<close> entry of a response: \<^verbatim>\<open>None\<close>, one encoded value, or the list of
  encoded values of a generator.\<close>

datatype outv = Null | Scalar json | Sequence "json list"

text \<open>A frame is what \<^verbatim>\<open>json.dumps\<close> writes of a response dictionary. A key that the
  dictionary does not have is \<open>None\<close>: \<^verbatim>\<open>push_error\<close> writes neither \<^verbatim>\<open>output\<close> nor
  \<^verbatim>\<open>logs\<close>.\<close>

record frame =
  frame_status :: status
  frame_output :: "outv option"
  frame_logs :: "string list option"
  frame_error :: "string option"

text \<open>The validated input object; its \<^verbatim>\<open>dict()\<close> is the keyword arguments of the run.\<close>

datatype input_obj = InputObj (dict: "(string \<times> json) list")

text \<open>A value produced by the predictor, before \<^verbatim>\<open>encode_json\<close>.\<close>

datatype pyobj = Plain json | FileHandle string

datatype redis_cmd =
    XAUTOCLAIM string string string string string int
  | XREADGROUP string string string string int int
  | XACK string string string
  | XDEL string string
  | XADD string real int
  | RPUSH json frame

datatype log_line =
    Connected string int int
  | CaughtSigterm
  | SetupTime real
  | WaitingFor string
  | ReceivedOn string
  | RunTime real
  | CleanupError exn
  | FailedToHandle exn
  | Traceback exn
  | PushingError json

text \<open>What the worker does to the outside, in order. A Redis command that raised is
  recorded as \<open>RedisFailed\<close>: the server is taken not to have executed it.\<close>

datatype event =
    Redis redis_cmd
  | RedisFailed redis_cmd exn
  | Stderr log_line
  | RunnerSetup
  | RunnerRun "(string \<times> json) list"
  | CleanupCall input_obj
  | SignalAlarm int
  | Sigalrm
  | Sigterm

type_synonym claim_reply = "(bytes \<times> bytes list) option list"
type_synonym read_reply = "(bytes \<times> (bytes \<times> (bytes \<times> bytes) list) list) list"

record ('r, 'w) env =
  json_loads :: "string \<Rightarrow> exn + json"
  redis_write :: "redis_cmd \<Rightarrow> 'w \<Rightarrow> (exn + unit) \<times> 'w"
  redis_xautoclaim :: "redis_cmd \<Rightarrow> 'w \<Rightarrow> (exn + claim_reply) \<times> 'w"
  redis_xreadgroup :: "redis_cmd \<Rightarrow> 'w \<Rightarrow> (exn + read_reply) \<times> 'w"
  input_type :: "(string \<times> json) list \<Rightarrow> 'w \<Rightarrow> (exn + input_obj) \<times> 'w"
  input_cleanup :: "input_obj \<Rightarrow> 'w \<Rightarrow> (exn + unit) \<times> 'w"
  upload_encode :: "string \<Rightarrow> pyobj \<Rightarrow> 'w \<Rightarrow> (exn + json) \<times> 'w"
  time_time :: "'w \<Rightarrow> real \<times> 'w"
  signal_alarm :: "int \<Rightarrow> 'w \<Rightarrow> 'w"
  sigalrm_due :: "'w \<Rightarrow> bool \<times> 'w"
  sigterm_due :: "'w \<Rightarrow> bool \<times> 'w"
  runner_setup :: "'r \<Rightarrow> 'r"
  runner_run :: "(string \<times> json) list \<Rightarrow> 'r \<Rightarrow> 'r"
  is_processing :: "'r \<Rightarrow> bool \<times> 'r"
  has_output_waiting :: "'r \<Rightarrow> bool \<times> 'r"
  has_logs_waiting :: "'r \<Rightarrow> bool \<times> 'r"
  read_logs :: "'r \<Rightarrow> string list \<times> 'r"
  read_output :: "'r \<Rightarrow> pyobj list \<times> 'r"
  runner_error :: "'r \<Rightarrow> string option \<times> 'r"
  is_output_generator :: "'r \<Rightarrow> bool \<times> 'r"

text \<open>The attributes of \<^verbatim>\<open>self\<close> that \<^verbatim>\<open>__init__\<close> sets and nothing changes.\<close>

record worker =
  redis_host :: string
  redis_port :: int
  input_queue :: string
  upload_url :: string
  consumer_id :: string
  model_id :: "string option"
  log_queue :: "string option"
  predict_timeout :: "int option"
  redis_db :: int
  max_processing_time :: int
  setup_time_queue :: string
  predict_time_queue :: string
  stats_queue_length :: int

text \<open>What changes while the worker runs: the runner, the world, the list
  \<^verbatim>\<open>cleanup_functions\<close> that \<^verbatim>\<open>handle_message\<close> appends to, and \<^verbatim>\<open>self.should_exit\<close>.\<close>

record ('r, 'w) state =
  runner :: 'r
  world :: 'w
  cleanup_functions :: "input_obj list"
  should_exit :: bool

section \<open>Control flow\<close>

text \<open>A computation returns a value, raises, or runs out of fuel (a polling loop that
  has not ended); it also yields the new state and the events it caused.\<close>

datatype 'a outcome = Return 'a | Raise exn | OutOfFuel

type_synonym ('a, 'r, 'w) prog = "('r, 'w) state \<Rightarrow> 'a outcome \<times> ('r, 'w) state \<times> event list"

definition ret :: "'a \<Rightarrow> ('a, 'r, 'w) prog" where
  "ret v s = (Return v, s, [])"

definition raise :: "exn \<Rightarrow> ('a, 'r, 'w) prog" where
  "raise e s = (Raise e, s, [])"

definition out_of_fuel :: "('a, 'r, 'w) prog" where
  "out_of_fuel s = (OutOfFuel, s, [])"

definition emit :: "event \<Rightarrow> (unit, 'r, 'w) prog" where
  "emit ev s = (Return (), s, [ev])"

definition andthen :: "('a, 'r, 'w) prog \<Rightarrow> ('a \<Rightarrow> ('b, 'r, 'w) prog) \<Rightarrow> ('b, 'r, 'w) prog" where
  "andthen m f s =
     (case m s of
        (Return v, s1, ev1) \<Rightarrow> (case f v s1 of (out, s2, ev2) \<Rightarrow> (out, s2, ev1 @ ev2))
      | (Raise e, s1, ev1) \<Rightarrow> (Raise e, s1, ev1)
      | (OutOfFuel, s1, ev1) \<Rightarrow> (OutOfFuel, s1, ev1))"

text \<open>\<^verbatim>\<open>try: m except Exception as e: h e\<close>\<close>

definition try_except :: "('a, 'r, 'w) prog \<Rightarrow> (exn \<Rightarrow> ('a, 'r, 'w) prog) \<Rightarrow> ('a, 'r, 'w) prog" where
  "try_except m h s =
     (case m s of
        (Raise e, s1, ev1) \<Rightarrow> (case h e s1 of (out, s2, ev2) \<Rightarrow> (out, s2, ev1 @ ev2))
      | (Return v, s1, ev1) \<Rightarrow> (Return v, s1, ev1)
      | (OutOfFuel, s1, ev1) \<Rightarrow> (OutOfFuel, s1, ev1))"

text \<open>\<^verbatim>\<open>try: m finally: c\<close>: \<open>c\<close> runs when \<open>m\<close> returns and when it raises; an
  exception of \<open>c\<close> replaces the outcome of \<open>m\<close>.\<close>

definition try_finally :: "('a, 'r, 'w) prog \<Rightarrow> (unit, 'r, 'w) prog \<Rightarrow> ('a, 'r, 'w) prog" where
  "try_finally m c s =
     (case m s of
        (OutOfFuel, s1, ev1) \<Rightarrow> (OutOfFuel, s1, ev1)
      | (out, s1, ev1) \<Rightarrow>
          (case c s1 of
             (Return u, s2, ev2) \<Rightarrow> (out, s2, ev1 @ ev2)
           | (Raise e, s2, ev2) \<Rightarrow> (Raise e, s2, ev1 @ ev2)
           | (OutOfFuel, s2, ev2) \<Rightarrow> (OutOfFuel, s2, ev1 @ ev2)))"

definition lift_sum :: "exn + 'a \<Rightarrow> ('a, 'r, 'w) prog" where
  "lift_sum x = (case x of Inl e \<Rightarrow> raise e | Inr v \<Rightarrow> ret v)"

text \<open>A call into the world that may raise.\<close>

definition world_call :: "('w \<Rightarrow> (exn + 'a) \<times> 'w) \<Rightarrow> ('a, 'r, 'w) prog" where
  "world_call f s =
     (case f (world s) of
        (Inl e, x) \<Rightarrow> (Raise e, s\<lparr>world := x\<rparr>, [])
      | (Inr v, x) \<Rightarrow> (Return v, s\<lparr>world := x\<rparr>, []))"

definition runner_call :: "('r \<Rightarrow> 'a \<times> 'r) \<Rightarrow> ('a, 'r, 'w) prog" where
  "runner_call f s = (case f (runner s) of (v, r) \<Rightarrow> (Return v, s\<lparr>runner := r\<rparr>, []))"

definition redis_call :: "('r, 'w) env \<Rightarrow> redis_cmd \<Rightarrow> (unit, 'r, 'w) prog" where
  "redis_call E c s =
     (case redis_write E c (world s) of
        (Inl e, x) \<Rightarrow> (Raise e, s\<lparr>world := x\<rparr>, [RedisFailed c e])
      | (Inr u, x) \<Rightarrow> (Return (), s\<lparr>world := x\<rparr>, [Redis c]))"

definition stderr_write :: "log_line \<Rightarrow> (unit, 'r, 'w) prog" where
  "stderr_write l = emit (Stderr l)"

definition time_now :: "('r, 'w) env \<Rightarrow> (real, 'r, 'w) prog" where
  "time_now E s = (case time_time E (world s) of (t, x) \<Rightarrow> (Return t, s\<lparr>world := x\<rparr>, []))"

section \<open>The timeout context manager\<close>

record timeout =
  seconds :: "int option"
  error_message :: string

definition timeout_init :: "int option \<Rightarrow> int option \<Rightarrow> string \<Rightarrow> timeout" where
  "timeout_init secs elapsed msg =
     \<lparr>seconds = (case elapsed of None \<Rightarrow> secs
                 | Some el \<Rightarrow> (case secs of None \<Rightarrow> secs | Some n \<Rightarrow> Some (n - el))),
      error_message = msg\<rparr>"

definition handle_timeout :: "timeout \<Rightarrow> ('a, 'r, 'w) prog" where
  "handle_timeout t = raise (TimeoutError (error_message t))"

definition timeout_enter :: "('r, 'w) env \<Rightarrow> timeout \<Rightarrow> (unit, 'r, 'w) prog" where
  "timeout_enter E t =
     (case seconds t of
        None \<Rightarrow> ret ()
      | Some n \<Rightarrow>
          if n \<le> 0 then handle_timeout t
          else (\<lambda>s. (Return (), s\<lparr>world := signal_alarm E n (world s)\<rparr>, [SignalAlarm n])))"

definition timeout_exit :: "('r, 'w) env \<Rightarrow> timeout \<Rightarrow> (unit, 'r, 'w) prog" where
  "timeout_exit E t =
     (case seconds t of
        None \<Rightarrow> ret ()
      | Some n \<Rightarrow> (\<lambda>s. (Return (), s\<lparr>world := signal_alarm E 0 (world s)\<rparr>, [SignalAlarm 0])))"

text \<open>An alarm is pending between \<^verbatim>\<open>__enter__\<close> and \<^verbatim>\<open>__exit__\<close> when the seconds are
  positive.\<close>

definition armed :: "timeout \<Rightarrow> bool" where
  "armed t = (case seconds t of None \<Rightarrow> False | Some n \<Rightarrow> 0 < n)"

text \<open>A point of the guarded block where a pending SIGALRM can be delivered: the handler
  \<^verbatim>\<open>handle_timeout\<close> raises there. The model has one such point before every call of
  the block into the runner, the encoder or Redis, and one where the block is left
  normally.\<close>

definition interrupt :: "('r, 'w) env \<Rightarrow> timeout \<Rightarrow> (unit, 'r, 'w) prog" where
  "interrupt E t s =
     (if armed t then
        (case sigalrm_due E (world s) of
           (True, x) \<Rightarrow> (Raise (TimeoutError (error_message t)), s\<lparr>world := x\<rparr>, [Sigalrm])
         | (False, x) \<Rightarrow> (Return (), s\<lparr>world := x\<rparr>, []))
      else (Return (), s, []))"

definition with_timeout :: "('r, 'w) env \<Rightarrow> timeout \<Rightarrow> ('a, 'r, 'w) prog \<Rightarrow> ('a, 'r, 'w) prog" where
  "with_timeout E t body =
     andthen (timeout_enter E t) (\<lambda>_.
       try_finally (andthen body (\<lambda>v. andthen (interrupt E t) (\<lambda>_. ret v)))
                   (timeout_exit E t))"

section \<open>receive_message\<close>

fun str_nat :: "nat \<Rightarrow> string" where
  "str_nat n =
     (if n < 10 then [''0123456789'' ! n]
      else str_nat (n div 10) @ [''0123456789'' ! (n mod 10)])"

declare str_nat.simps [simp del]

definition str_int :: "int \<Rightarrow> string" where
  "str_int i = (if i < 0 then CHR ''-'' # str_nat (nat (- i)) else str_nat (nat i))"

definition bytes_decode :: "bytes \<Rightarrow> (string, 'r, 'w) prog" where
  "bytes_decode b =
     (case b of Utf8 s \<Rightarrow> ret s
      | Undecodable \<Rightarrow> raise (UnicodeDecodeError ''invalid bytes''))"

text \<open>\<^verbatim>\<open>repr\<close> of a text without quotes in it.\<close>

definition py_repr :: "string \<Rightarrow> string" where
  "py_repr k = [CHR 0x27] @ k @ [CHR 0x27]"

text \<open>\<^verbatim>\<open>xs[i]\<close> on a list.\<close>

definition list_item :: "'a list \<Rightarrow> nat \<Rightarrow> ('a, 'r, 'w) prog" where
  "list_item xs i =
     (if i < length xs then ret (xs ! i) else raise (IndexError ''list index out of range''))"

definition xautoclaim :: "('r, 'w) env \<Rightarrow> redis_cmd \<Rightarrow> (claim_reply, 'r, 'w) prog" where
  "xautoclaim E c s =
     (case redis_xautoclaim E c (world s) of
        (Inl e, x) \<Rightarrow> (Raise e, s\<lparr>world := x\<rparr>, [RedisFailed c e])
      | (Inr v, x) \<Rightarrow> (Return v, s\<lparr>world := x\<rparr>, [Redis c]))"

definition xreadgroup :: "('r, 'w) env \<Rightarrow> redis_cmd \<Rightarrow> (read_reply, 'r, 'w) prog" where
  "xreadgroup E c s =
     (case redis_xreadgroup E c (world s) of
        (Inl e, x) \<Rightarrow> (Raise e, s\<lparr>world := x\<rparr>, [RedisFailed c e])
      | (Inr v, x) \<Rightarrow> (Return v, s\<lparr>world := x\<rparr>, [Redis c]))"

definition autoclaim_cmd :: "worker \<Rightarrow> redis_cmd" where
  "autoclaim_cmd w =
     XAUTOCLAIM (input_queue w) (input_queue w) (consumer_id w)
       (str_int (max_processing_time w * 1000)) ''0-0'' 1"

definition readgroup_cmd :: "worker \<Rightarrow> redis_cmd" where
  "readgroup_cmd w = XREADGROUP (input_queue w) (consumer_id w) (input_queue w) ''>'' 1 1000"

text \<open>The result \<open>None\<close> is the pair \<^verbatim>\<open>(None, None)\<close>; \<open>Some (key, value)\<close> is a pair of
  two strings. The source returns no other shape.\<close>

definition receive_message :: "('r, 'w) env \<Rightarrow> worker \<Rightarrow> ((string \<times> string) option, 'r, 'w) prog" where
  "receive_message E w =
     andthen (xautoclaim E (autoclaim_cmd w)) (\<lambda>raw_messages.
       case raw_messages of
         Some (key, raw_message) # rest \<Rightarrow>
           andthen (list_item raw_message 0) (\<lambda>field.
             if field \<noteq> Utf8 ''value'' then raise AssertionError
             else andthen (bytes_decode key) (\<lambda>k.
                    andthen (list_item raw_message 1) (\<lambda>b.
                      andthen (bytes_decode b) (\<lambda>v. ret (Some (k, v))))))
       | _ \<Rightarrow>
           andthen (xreadgroup E (readgroup_cmd w)) (\<lambda>raw_messages.
             case raw_messages of
               [] \<Rightarrow> ret None
             | (stream, entries) # rest \<Rightarrow>
                 andthen (list_item entries 0) (\<lambda>(key, raw_message).
                   andthen (bytes_decode key) (\<lambda>k.
                     case map_of raw_message (Utf8 ''value'') of
                       None \<Rightarrow> raise (KeyError (CHR ''b'' # py_repr ''value''))
                     | Some b \<Rightarrow> andthen (bytes_decode b) (\<lambda>v. ret (Some (k, v)))))))"

section \<open>handle_message\<close>

text \<open>\<^verbatim>\<open>message[key]\<close> on a decoded JSON value.\<close>

definition py_getitem :: "json \<Rightarrow> string \<Rightarrow> exn + json" where
  "py_getitem m k =
     (case m of
        JObj kvs \<Rightarrow> (case map_of kvs k of None \<Rightarrow> Inl (KeyError (py_repr k)) | Some v \<Rightarrow> Inr v)
      | JList xs \<Rightarrow> Inl (TypeError ''list indices must be integers or slices, not str'')
      | JStr x \<Rightarrow> Inl (TypeError ''string indices must be integers'')
      | _ \<Rightarrow> Inl (TypeError ''object is not subscriptable''))"

text \<open>\<^verbatim>\<open>self.InputType(**message["input"])\<close>\<close>

definition make_input :: "('r, 'w) env \<Rightarrow> json \<Rightarrow> (input_obj, 'r, 'w) prog" where
  "make_input E message =
     andthen (lift_sum (py_getitem message ''input'')) (\<lambda>inp.
       case inp of
         JObj kvs \<Rightarrow> world_call (input_type E kvs)
       | _ \<Rightarrow> raise (TypeError ''argument after ** must be a mapping''))"

text \<open>\<^verbatim>\<open>try: m except ValidationError as e: h e\<close>\<close>

definition except_validation ::
  "('a, 'r, 'w) prog \<Rightarrow> (exn \<Rightarrow> ('a, 'r, 'w) prog) \<Rightarrow> ('a, 'r, 'w) prog" where
  "except_validation m h s =
     (case m s of
        (Raise (ValidationError v), s1, ev1) \<Rightarrow>
          (case h (ValidationError v) s1 of (out, s2, ev2) \<Rightarrow> (out, s2, ev1 @ ev2))
      | other \<Rightarrow> other)"

definition error_frame :: "exn \<Rightarrow> frame" where
  "error_frame e =
     \<lparr>frame_status = FAILED, frame_output = None, frame_logs = None,
      frame_error = Some (str_exn e)\<rparr>"

definition push_error :: "('r, 'w) env \<Rightarrow> worker \<Rightarrow> json \<Rightarrow> exn \<Rightarrow> (unit, 'r, 'w) prog" where
  "push_error E w response_queue e =
     andthen (stderr_write (PushingError response_queue)) (\<lambda>_.
       redis_call E (RPUSH response_queue (error_frame e)))"

definition encode_json :: "('r, 'w) env \<Rightarrow> worker \<Rightarrow> pyobj \<Rightarrow> (json, 'r, 'w) prog" where
  "encode_json E w obj = world_call (upload_encode E (upload_url w) obj)"

text \<open>The dictionary \<^verbatim>\<open>response\<close> of \<^verbatim>\<open>handle_message\<close> as \<^verbatim>\<open>json.dumps\<close> writes it. The
  lists \<^verbatim>\<open>logs\<close> and \<^verbatim>\<open>output\<close> are shared with the dictionary, so a frame shows them as
  they are when it is pushed.\<close>

definition response :: "status \<Rightarrow> outv \<Rightarrow> string list \<Rightarrow> string option \<Rightarrow> frame" where
  "response st output logs err =
     \<lparr>frame_status = st, frame_output = Some output, frame_logs = Some logs, frame_error = err\<rparr>"

text \<open>A call inside the \<^verbatim>\<open>with timeout\<close> block: the alarm can go off before it.\<close>

definition guarded :: "('r, 'w) env \<Rightarrow> timeout \<Rightarrow> ('a, 'r, 'w) prog \<Rightarrow> ('a, 'r, 'w) prog" where
  "guarded E t m = andthen (interrupt E t) (\<lambda>_. m)"

definition push :: "('r, 'w) env \<Rightarrow> timeout \<Rightarrow> json \<Rightarrow> frame \<Rightarrow> (unit, 'r, 'w) prog" where
  "push E t response_queue fr = guarded E t (redis_call E (RPUSH response_queue fr))"

text \<open>Lines 220 to 224: just send logs until output starts.\<close>

fun pre_loop ::
  "nat \<Rightarrow> ('r, 'w) env \<Rightarrow> timeout \<Rightarrow> json \<Rightarrow> string list \<Rightarrow> (string list, 'r, 'w) prog" where
  "pre_loop 0 E t q logs = out_of_fuel"
| "pre_loop (Suc n) E t q logs =
     andthen (guarded E t (runner_call (is_processing E))) (\<lambda>processing.
       if \<not> processing then ret logs
       else andthen (guarded E t (runner_call (has_output_waiting E))) (\<lambda>waiting.
         if waiting then ret logs
         else andthen (guarded E t (runner_call (has_logs_waiting E))) (\<lambda>has_logs.
           if has_logs then
             andthen (guarded E t (runner_call (read_logs E))) (\<lambda>new_logs.
               andthen (push E t q (response PROCESSING Null (logs @ new_logs) None)) (\<lambda>_.
                 pre_loop n E t q (logs @ new_logs)))
           else pre_loop n E t q logs)))"

text \<open>The three places that report \<^verbatim>\<open>self.runner.error()\<close> (lines 227 to 230, 259 to 262
  and 277 to 280) are the same code; \<^verbatim>\<open>error()\<close> is read a second time for the text.\<close>

definition push_failed ::
  "('r, 'w) env \<Rightarrow> timeout \<Rightarrow> json \<Rightarrow> outv \<Rightarrow> string list \<Rightarrow> (unit, 'r, 'w) prog" where
  "push_failed E t q output logs =
     andthen (guarded E t (runner_call (runner_error E))) (\<lambda>err.
       push E t q (response FAILED output logs
         (Some (case err of None \<Rightarrow> ''None'' | Some m \<Rightarrow> m))))"

fun encode_list ::
  "('r, 'w) env \<Rightarrow> timeout \<Rightarrow> worker \<Rightarrow> pyobj list \<Rightarrow> (json list, 'r, 'w) prog" where
  "encode_list E t w [] = ret []"
| "encode_list E t w (obj # objs) =
     andthen (guarded E t (encode_json E w obj)) (\<lambda>j.
       andthen (encode_list E t w objs) (\<lambda>js. ret (j # js)))"

text \<open>Lines 235 to 256: the streaming loop of a generator.\<close>

fun gen_loop ::
  "nat \<Rightarrow> ('r, 'w) env \<Rightarrow> timeout \<Rightarrow> worker \<Rightarrow> json \<Rightarrow> json list \<Rightarrow> string list \<Rightarrow>
   (json list \<times> string list, 'r, 'w) prog" where
  "gen_loop 0 E t w q output logs = out_of_fuel"
| "gen_loop (Suc n) E t w q output logs =
     andthen (guarded E t (runner_call (is_processing E))) (\<lambda>processing.
       if \<not> processing then ret (output, logs)
       else andthen (guarded E t (runner_call (has_output_waiting E))) (\<lambda>waiting.
         andthen (if waiting then ret True
                  else guarded E t (runner_call (has_logs_waiting E))) (\<lambda>ready.
           if ready then
             andthen (guarded E t (runner_call (read_output E))) (\<lambda>objs.
               andthen (encode_list E t w objs) (\<lambda>new_output.
                 andthen (guarded E t (runner_call (read_logs E))) (\<lambda>new_logs.
                   if new_output = [] \<and> new_logs = [] then gen_loop n E t w q output logs
                   else
                     andthen (push E t q
                       (response PROCESSING (Sequence (output @ new_output)) (logs @ new_logs) None)) (\<lambda>_.
                       gen_loop n E t w q (output @ new_output) (logs @ new_logs)))))
           else gen_loop n E t w q output logs)))"

text \<open>Lines 264 to 267.\<close>

definition gen_finish ::
  "('r, 'w) env \<Rightarrow> timeout \<Rightarrow> worker \<Rightarrow> json \<Rightarrow> json list \<Rightarrow> string list \<Rightarrow> (unit, 'r, 'w) prog" where
  "gen_finish E t w q output logs =
     andthen (guarded E t (runner_call (read_output E))) (\<lambda>objs.
       andthen (encode_list E t w objs) (\<lambda>new_output.
         andthen (guarded E t (runner_call (read_logs E))) (\<lambda>new_logs.
           push E t q (response SUCCEEDED (Sequence (output @ new_output)) (logs @ new_logs) None))))"

text \<open>Lines 270 to 274: just send logs until output ends.\<close>

fun scalar_loop ::
  "nat \<Rightarrow> ('r, 'w) env \<Rightarrow> timeout \<Rightarrow> json \<Rightarrow> string list \<Rightarrow> (string list, 'r, 'w) prog" where
  "scalar_loop 0 E t q logs = out_of_fuel"
| "scalar_loop (Suc n) E t q logs =
     andthen (guarded E t (runner_call (is_processing E))) (\<lambda>processing.
       if \<not> processing then ret logs
       else andthen (guarded E t (runner_call (has_logs_waiting E))) (\<lambda>has_logs.
         if has_logs then
           andthen (guarded E t (runner_call (read_logs E))) (\<lambda>new_logs.
             andthen (push E t q (response PROCESSING Null (logs @ new_logs) None)) (\<lambda>_.
               scalar_loop n E t q (logs @ new_logs)))
         else scalar_loop n E t q logs))"

text \<open>Lines 282 to 288.\<close>

definition scalar_finish ::
  "('r, 'w) env \<Rightarrow> timeout \<Rightarrow> worker \<Rightarrow> json \<Rightarrow> string list \<Rightarrow> (unit, 'r, 'w) prog" where
  "scalar_finish E t w q logs =
     andthen (guarded E t (runner_call (read_output E))) (\<lambda>output.
       if length output \<noteq> 1 then raise AssertionError
       else andthen (guarded E t (encode_json E w (hd output))) (\<lambda>encoded.
         andthen (guarded E t (runner_call (read_logs E))) (\<lambda>new_logs.
           push E t q (response SUCCEEDED (Scalar encoded) (logs @ new_logs) None))))"

definition run_predictor :: "('r, 'w) env \<Rightarrow> input_obj \<Rightarrow> (unit, 'r, 'w) prog" where
  "run_predictor E input_obj s =
     (Return (), s\<lparr>runner := runner_run E (dict input_obj) (runner s)\<rparr>,
      [RunnerRun (dict input_obj)])"

text \<open>The body of the \<^verbatim>\<open>with timeout\<close> block, lines 211 to 288.\<close>

definition drive ::
  "nat \<Rightarrow> ('r, 'w) env \<Rightarrow> timeout \<Rightarrow> worker \<Rightarrow> json \<Rightarrow> input_obj \<Rightarrow> (unit, 'r, 'w) prog" where
  "drive n E t w q input_obj =
     andthen (guarded E t (run_predictor E input_obj)) (\<lambda>_.
       andthen (pre_loop n E t q []) (\<lambda>logs.
         andthen (guarded E t (runner_call (runner_error E))) (\<lambda>err.
           if err \<noteq> None then push_failed E t q Null logs
           else andthen (guarded E t (runner_call (is_output_generator E))) (\<lambda>is_gen.
             if is_gen then
               andthen (gen_loop n E t w q [] logs) (\<lambda>(output, logs).
                 andthen (guarded E t (runner_call (runner_error E))) (\<lambda>err.
                   if err \<noteq> None then push_failed E t q (Sequence output) logs
                   else gen_finish E t w q output logs))
             else
               andthen (scalar_loop n E t q logs) (\<lambda>logs.
                 andthen (guarded E t (runner_call (runner_error E))) (\<lambda>err.
                   if err \<noteq> None then push_failed E t q Null logs
                   else scalar_finish E t w q logs))))))"

definition append_cleanup :: "input_obj \<Rightarrow> (unit, 'r, 'w) prog" where
  "append_cleanup input_obj s =
     (Return (), s\<lparr>cleanup_functions := cleanup_functions s @ [input_obj]\<rparr>, [])"

definition handle_message ::
  "nat \<Rightarrow> ('r, 'w) env \<Rightarrow> worker \<Rightarrow> json \<Rightarrow> json \<Rightarrow> (unit, 'r, 'w) prog" where
  "handle_message n E w response_queue message =
     andthen
       (except_validation (andthen (make_input E message) (\<lambda>input_obj. ret (Some input_obj)))
          (\<lambda>e. andthen (stderr_write (Traceback e)) (\<lambda>_.
                 andthen (push_error E w response_queue e) (\<lambda>_. ret None))))
       (\<lambda>validated.
          case validated of
            None \<Rightarrow> ret ()
          | Some input_obj \<Rightarrow>
              andthen (append_cleanup input_obj) (\<lambda>_.
                andthen (time_now E) (\<lambda>start_time.
                  with_timeout E (timeout_init (predict_timeout w) None ''Prediction timed out'')
                    (drive n E (timeout_init (predict_timeout w) None ''Prediction timed out'')
                       w response_queue input_obj))))"

section \<open>start\<close>

definition signal_exit :: "(unit, 'r, 'w) prog" where
  "signal_exit s = (Return (), s\<lparr>should_exit := True\<rparr>, [Stderr CaughtSigterm])"

text \<open>SIGTERM is delivered at any time and its handler only sets the flag; the model lets
  it arrive where the loop reads the flag.\<close>

definition deliver_sigterm :: "('r, 'w) env \<Rightarrow> (unit, 'r, 'w) prog" where
  "deliver_sigterm E s =
     (case sigterm_due E (world s) of
        (True, x) \<Rightarrow>
          (case signal_exit (s\<lparr>world := x\<rparr>) of (out, s1, ev) \<Rightarrow> (out, s1, Sigterm # ev))
      | (False, x) \<Rightarrow> (Return (), s\<lparr>world := x\<rparr>, []))"

text \<open>Lines 183 to 187: the \<^verbatim>\<open>finally\<close> block.\<close>

fun run_cleanups :: "('r, 'w) env \<Rightarrow> input_obj list \<Rightarrow> (unit, 'r, 'w) prog" where
  "run_cleanups E [] = ret ()"
| "run_cleanups E (c # cs) =
     andthen (andthen (emit (CleanupCall c)) (\<lambda>_.
                try_except (world_call (input_cleanup E c))
                  (\<lambda>e. stderr_write (CleanupError e)))) (\<lambda>_.
       run_cleanups E cs)"

definition reset_cleanups :: "(unit, 'r, 'w) prog" where
  "reset_cleanups s = (Return (), s\<lparr>cleanup_functions := []\<rparr>, [])"

definition ack_and_delete :: "('r, 'w) env \<Rightarrow> worker \<Rightarrow> string \<Rightarrow> (unit, 'r, 'w) prog" where
  "ack_and_delete E w message_id =
     andthen (redis_call E (XACK (input_queue w) (input_queue w) message_id)) (\<lambda>_.
       redis_call E (XDEL (input_queue w) message_id))"

text \<open>Lines 163 to 187: one message whose \<^verbatim>\<open>response_queue\<close> is known.\<close>

definition process_message ::
  "nat \<Rightarrow> ('r, 'w) env \<Rightarrow> worker \<Rightarrow> string \<Rightarrow> json \<Rightarrow> json \<Rightarrow> (unit, 'r, 'w) prog" where
  "process_message n E w message_id response_queue message =
     andthen reset_cleanups (\<lambda>_.
       try_finally
         (try_except
            (andthen (time_now E) (\<lambda>start_time.
               andthen (handle_message n E w response_queue message) (\<lambda>_.
                 andthen (ack_and_delete E w message_id) (\<lambda>_.
                   andthen (time_now E) (\<lambda>end_time.
                     andthen (redis_call E
                        (XADD (predict_time_queue w) (end_time - start_time) (stats_queue_length w))) (\<lambda>_.
                       stderr_write (RunTime (end_time - start_time))))))))
            (\<lambda>e. andthen (push_error E w response_queue e) (\<lambda>_.
                   ack_and_delete E w message_id)))
         (\<lambda>s. run_cleanups E (cleanup_functions s) s))"

text \<open>Lines 154 to 190: the body of the loop.\<close>

definition iteration :: "nat \<Rightarrow> ('r, 'w) env \<Rightarrow> worker \<Rightarrow> (unit, 'r, 'w) prog" where
  "iteration n E w =
     try_except
       (andthen (receive_message E w) (\<lambda>received.
          case received of
            None \<Rightarrow> ret ()
          | Some (message_id, message_json) \<Rightarrow>
              andthen (lift_sum (json_loads E message_json)) (\<lambda>message.
                andthen (lift_sum (py_getitem message ''response_queue'')) (\<lambda>response_queue.
                  andthen (stderr_write (ReceivedOn (input_queue w))) (\<lambda>_.
                    process_message n E w message_id response_queue message)))))
       (\<lambda>e. stderr_write (FailedToHandle e))"

fun start_loop :: "nat \<Rightarrow> ('r, 'w) env \<Rightarrow> worker \<Rightarrow> (unit, 'r, 'w) prog" where
  "start_loop 0 E w = out_of_fuel"
| "start_loop (Suc n) E w =
     andthen (deliver_sigterm E) (\<lambda>_ s.
       if should_exit s then ret () s
       else andthen (iteration n E w) (\<lambda>_. start_loop n E w) s)"

definition run_setup :: "('r, 'w) env \<Rightarrow> (unit, 'r, 'w) prog" where
  "run_setup E s = (Return (), s\<lparr>runner := runner_setup E (runner s)\<rparr>, [RunnerSetup])"

definition start :: "nat \<Rightarrow> ('r, 'w) env \<Rightarrow> worker \<Rightarrow> (unit, 'r, 'w) prog" where
  "start n E w =
     andthen (time_now E) (\<lambda>start_time.
       andthen (run_setup E) (\<lambda>_.
         andthen (time_now E) (\<lambda>end_time.
           andthen (redis_call E
              (XADD (setup_time_queue w) (end_time - start_time) (stats_queue_length w))) (\<lambda>_.
             andthen (stderr_write (SetupTime (end_time - start_time))) (\<lambda>_.
               andthen (stderr_write (WaitingFor (input_queue w))) (\<lambda>_.
                 start_loop n E w))))))"

text \<open>\<^verbatim>\<open>RedisQueueWorker.__init__\<close>: the attributes, the flag, and the line on stderr.\<close>

definition init ::
  "string \<Rightarrow> int \<Rightarrow> string \<Rightarrow> string \<Rightarrow> string \<Rightarrow> string option \<Rightarrow> string option \<Rightarrow>
   int option \<Rightarrow> int \<Rightarrow> (worker, 'r, 'w) prog" where
  "init host port queue url consumer model logq ptimeout db s =
     (Return \<lparr>redis_host = host, redis_port = port, input_queue = queue, upload_url = url,
              consumer_id = consumer, model_id = model, log_queue = logq,
              predict_timeout = ptimeout, redis_db = db, max_processing_time = 10 * 60,
              setup_time_queue = queue @ ''-setup-time'',
              predict_time_queue = queue @ ''-run-time'',
              stats_queue_length = 100\<rparr>,
      s\<lparr>should_exit := False\<rparr>,
      [Stderr (Connected host port db)])"

section \<open>What a job leaves on the reply channel\<close>

text \<open>The frame an event puts on the channel \<open>q\<close>, if it does.\<close>

fun pushed :: "json \<Rightarrow> event \<Rightarrow> frame option" where
  "pushed q (Redis (RPUSH k f)) = (if k = q then Some f else None)"
| "pushed q ev = None"

definition frames_on :: "json \<Rightarrow> event list \<Rightarrow> frame list" where
  "frames_on q evs = List.map_filter (pushed q) evs"

definition terminal :: "frame \<Rightarrow> bool" where
  "terminal f = (frame_status f = SUCCEEDED \<or> frame_status f = FAILED)"

definition all_processing :: "frame list \<Rightarrow> bool" where
  "all_processing fs = list_all (\<lambda>f. frame_status f = PROCESSING) fs"

text \<open>At least one frame, the last one terminal, none before it.\<close>

definition one_terminal_last :: "frame list \<Rightarrow> bool" where
  "one_terminal_last fs = (fs \<noteq> [] \<and> terminal (last fs) \<and> all_processing (butlast fs))"

text \<open>The logs of the frames on \<open>q\<close> that have a \<^verbatim>\<open>logs\<close> key, in order.\<close>

definition logs_on :: "json \<Rightarrow> event list \<Rightarrow> string list list" where
  "logs_on q evs = List.map_filter frame_logs (frames_on q evs)"

text \<open>SIGALRM was delivered after a terminal frame had reached \<open>q\<close>.\<close>

fun late_alarm :: "json \<Rightarrow> event list \<Rightarrow> bool" where
  "late_alarm q [] = False"
| "late_alarm q (ev # evs) =
     (case pushed q ev of
        Some f \<Rightarrow> (terminal f \<and> Sigalrm \<in> set evs) \<or> late_alarm q evs
      | None \<Rightarrow> late_alarm q evs)"

fun failed_cmd :: "event \<Rightarrow> bool" where
  "failed_cmd (RedisFailed c e) = True"
| "failed_cmd ev = False"

text \<open>No Redis command of the run raised.\<close>

definition redis_ok :: "event list \<Rightarrow> bool" where
  "redis_ok evs = list_all (\<lambda>ev. \<not> failed_cmd ev) evs"

fun xadd_to :: "string \<Rightarrow> event \<Rightarrow> bool" where
  "xadd_to stream (Redis (XADD k d m)) = (k = stream)"
| "xadd_to stream ev = False"

text \<open>How many entries the run appended to a timing stream.\<close>

definition xadds :: "string \<Rightarrow> event list \<Rightarrow> nat" where
  "xadds stream evs = length (filter (xadd_to stream) evs)"

fun is_run :: "event \<Rightarrow> bool" where
  "is_run (RunnerRun kwargs) = True"
| "is_run ev = False"

fun is_xack :: "event \<Rightarrow> bool" where
  "is_xack (Redis (XACK s g i)) = True"
| "is_xack (RedisFailed (XACK s g i) e) = True"
| "is_xack ev = False"

text \<open>The events \<^verbatim>\<open>handle_message\<close> can cause for the channel \<open>q\<close>.\<close>

fun job_event :: "json \<Rightarrow> event \<Rightarrow> bool" where
  "job_event q (Redis (RPUSH k f)) = (k = q)"
| "job_event q (RedisFailed (RPUSH k f) e) = (k = q)"
| "job_event q (Stderr l) = True"
| "job_event q (RunnerRun kwargs) = True"
| "job_event q (SignalAlarm n) = True"
| "job_event q Sigalrm = True"
| "job_event q ev = False"

text \<open>An event that puts no terminal frame on any channel.\<close>

fun quiet :: "event \<Rightarrow> bool" where
  "quiet (Redis (RPUSH k f)) = (frame_status f = PROCESSING)"
| "quiet ev = True"

text \<open>Every event of every run of a computation satisfies \<open>P\<close>.\<close>

definition emits :: "(event \<Rightarrow> bool) \<Rightarrow> ('a, 'r, 'w) prog \<Rightarrow> bool" where
  "emits P m = (\<forall>s. list_all P (snd (snd (m s))))"

text \<open>The state in which \<^verbatim>\<open>process_message\<close> calls \<^verbatim>\<open>handle_message\<close>: the cleanup list is
  new and the clock has been read.\<close>

definition job_start :: "('r, 'w) env \<Rightarrow> ('r, 'w) state \<Rightarrow> ('r, 'w) state" where
  "job_start E s = s\<lparr>cleanup_functions := [], world := snd (time_time E (world s))\<rparr>"

text \<open>The attributes that \<^verbatim>\<open>__init__\<close> computes.\<close>

definition initialised :: "worker \<Rightarrow> bool" where
  "initialised w =
     (max_processing_time w = 600 \<and> stats_queue_length w = 100 \<and>
      setup_time_queue w = input_queue w @ ''-setup-time'' \<and>
      predict_time_queue w = input_queue w @ ''-run-time'')"

text \<open>The events of the \<^verbatim>\<open>finally\<close> block.\<close>

fun cleanup_event :: "event \<Rightarrow> bool" where
  "cleanup_event (CleanupCall c) = True"
| "cleanup_event (Stderr (CleanupError e)) = True"
| "cleanup_event ev = False"

text \<open>An event that puts no frame with a \<^verbatim>\<open>logs\<close> key on \<open>q\<close>.\<close>

definition no_logs :: "json \<Rightarrow> event \<Rightarrow> bool" where
  "no_logs q ev = (case pushed q ev of None \<Rightarrow> True | Some f \<Rightarrow> frame_logs f = None)"

text \<open>The message was acked and then deleted after a terminal frame, the last frame
  on \<open>q\<close>.\<close>

definition acked_after :: "worker \<Rightarrow> string \<Rightarrow> json \<Rightarrow> event list \<Rightarrow> bool" where
  "acked_after w message_id q evs =
     (\<exists>a b. evs = a @ [Redis (XACK (input_queue w) (input_queue w) message_id),
                        Redis (XDEL (input_queue w) message_id)] @ b \<and>
            frames_on q a \<noteq> [] \<and> terminal (last (frames_on q a)) \<and> frames_on q b = [])"

section \<open>Specifications of computations\<close>

text \<open>The environment is arbitrary, so what a computation is known to do is a relation
  between its outcome and its events, whatever the state.\<close>

definition spec :: "('a, 'r, 'w) prog \<Rightarrow> ('a outcome \<Rightarrow> event list \<Rightarrow> bool) \<Rightarrow> bool" where
  "spec m Q = (\<forall>s. Q (fst (m s)) (snd (snd (m s))))"

text \<open>The events put nothing on \<open>q\<close>.\<close>

definition frameless :: "json \<Rightarrow> event list \<Rightarrow> bool" where
  "frameless q evs = (frames_on q evs = [] \<and> list_all quiet evs)"

text \<open>The logs on \<open>q\<close> grow from \<open>lo\<close> on.\<close>

definition bounded_logs :: "json \<Rightarrow> string list \<Rightarrow> event list \<Rightarrow> bool" where
  "bounded_logs q lo evs =
     (sorted_wrt prefix (logs_on q evs) \<and> list_all (prefix lo) (logs_on q evs))"

text \<open>A polling loop that starts with the logs \<open>lo\<close>: processing frames only, growing logs,
  and the logs it returns extend them all.\<close>

definition loop_post ::
  "json \<Rightarrow> ('a \<Rightarrow> string list) \<Rightarrow> string list \<Rightarrow> 'a outcome \<Rightarrow> event list \<Rightarrow> bool" where
  "loop_post q g lo out evs =
     (list_all quiet evs \<and> bounded_logs q lo evs \<and>
      (case out of
         Return v \<Rightarrow> prefix lo (g v) \<and> list_all (\<lambda>l. prefix l (g v)) (logs_on q evs)
       | _ \<Rightarrow> True))"

text \<open>The events end with a terminal frame on \<open>q\<close>, the only one.\<close>

definition finished :: "json \<Rightarrow> event list \<Rightarrow> bool" where
  "finished q evs =
     (evs \<noteq> [] \<and> list_all quiet (butlast evs) \<and>
      (case pushed q (last evs) of Some f \<Rightarrow> terminal f | None \<Rightarrow> False))"

text \<open>The rest of the block after the logs \<open>lo\<close>: it returns having pushed its terminal
  frame last, or it does not return and has pushed none.\<close>

definition tail_post :: "json \<Rightarrow> string list \<Rightarrow> unit outcome \<Rightarrow> event list \<Rightarrow> bool" where
  "tail_post q lo out evs =
     (bounded_logs q lo evs \<and>
      (case out of Return u \<Rightarrow> finished q evs | _ \<Rightarrow> list_all quiet evs))"

text \<open>What \<^verbatim>\<open>handle_message\<close> leaves on \<open>q\<close>.\<close>

definition job_post :: "json \<Rightarrow> unit outcome \<Rightarrow> event list \<Rightarrow> bool" where
  "job_post q out evs =
     (sorted_wrt prefix (logs_on q evs) \<and>
      (case out of
         Return u \<Rightarrow> one_terminal_last (frames_on q evs)
       | Raise e \<Rightarrow>
           all_processing (frames_on q evs) \<or>
           (late_alarm q evs \<and> e = TimeoutError ''Prediction timed out'')
       | OutOfFuel \<Rightarrow> all_processing (frames_on q evs)))"

section \<open>A concrete environment\<close>

text \<open>A scripted runner and world on which the worker can be run: the runner answers
  \<^verbatim>\<open>is_processing\<close> from a list, holds the logs it has not delivered yet and the output
  that waits once the list is used up; the
  world answers whether SIGALRM and SIGTERM are due from lists, and its Redis accepts every
  command.\<close>

record demo_runner =
  dr_processing :: "bool list"
  dr_logs :: "string list"
  dr_output :: "pyobj list"
  dr_error :: "string option"
  dr_generator :: bool

record demo_world =
  dw_clock :: real
  dw_alarm :: "bool list"
  dw_sigterm :: "bool list"
  dw_pending :: claim_reply
  dw_fresh :: read_reply

definition demo_payload :: string where
  \<open>demo_payload = ''{"response_queue": "replies", "input": {"sleep_time": 5.0}}''\<close>

definition demo_message :: json where
  "demo_message =
     JObj [(''response_queue'', JStr ''replies''), (''input'', JObj [(''sleep_time'', JNum 5)])]"

definition bad_message :: json where
  "bad_message =
     JObj [(''response_queue'', JStr ''replies''),
           (''input'', JObj [(''sleep_time'', JStr ''not a number'')])]"

definition pop :: "bool list \<Rightarrow> bool \<times> bool list" where
  "pop bs = (case bs of [] \<Rightarrow> (False, []) | b # rest \<Rightarrow> (b, rest))"

definition demo_env :: "(demo_runner, demo_world) env" where
  "demo_env =
     \<lparr>json_loads = (\<lambda>text. if text = demo_payload then Inr demo_message
                            else Inl (JSONDecodeError ''Expecting value'')),
      redis_write = (\<lambda>c x. (Inr (), x)),
      redis_xautoclaim = (\<lambda>c x. (Inr (dw_pending x), x\<lparr>dw_pending := []\<rparr>)),
      redis_xreadgroup = (\<lambda>c x. (Inr (dw_fresh x), x\<lparr>dw_fresh := []\<rparr>)),
      input_type = (\<lambda>kvs x.
         case map_of kvs ''sleep_time'' of
           Some (JNum v) \<Rightarrow> (Inr (InputObj kvs), x)
         | _ \<Rightarrow> (Inl (ValidationError ''sleep_time: value is not a valid float''), x)),
      input_cleanup = (\<lambda>i x. (Inr (), x)),
      upload_encode = (\<lambda>url obj x.
         case obj of Plain j \<Rightarrow> (Inr j, x) | FileHandle b \<Rightarrow> (Inr (JStr url), x)),
      time_time = (\<lambda>x. (dw_clock x, x\<lparr>dw_clock := dw_clock x + 1\<rparr>)),
      signal_alarm = (\<lambda>n x. x),
      sigalrm_due = (\<lambda>x. (fst (pop (dw_alarm x)), x\<lparr>dw_alarm := snd (pop (dw_alarm x))\<rparr>)),
      sigterm_due = (\<lambda>x. (fst (pop (dw_sigterm x)), x\<lparr>dw_sigterm := snd (pop (dw_sigterm x))\<rparr>)),
      runner_setup = (\<lambda>r. r),
      runner_run = (\<lambda>kwargs r. r),
      is_processing = (\<lambda>r. (fst (pop (dr_processing r)),
                             r\<lparr>dr_processing := snd (pop (dr_processing r))\<rparr>)),
      has_output_waiting = (\<lambda>r. (dr_processing r = [] \<and> dr_output r \<noteq> [], r)),
      has_logs_waiting = (\<lambda>r. (dr_logs r \<noteq> [], r)),
      read_logs = (\<lambda>r. (dr_logs r, r\<lparr>dr_logs := []\<rparr>)),
      read_output = (\<lambda>r. (dr_output r, r\<lparr>dr_output := []\<rparr>)),
      runner_error = (\<lambda>r. (dr_error r, r)),
      is_output_generator = (\<lambda>r. (dr_generator r, r))\<rparr>"

definition demo_worker :: "int option \<Rightarrow> worker" where
  "demo_worker ptimeout =
     \<lparr>redis_host = ''localhost'', redis_port = 6379, input_queue = ''queue'',
      upload_url = ''http://upload'', consumer_id = ''worker-1'', model_id = None,
      log_queue = None, predict_timeout = ptimeout, redis_db = 0,
      max_processing_time = 600, setup_time_queue = ''queue-setup-time'',
      predict_time_queue = ''queue-run-time'', stats_queue_length = 100\<rparr>"

text \<open>The state before a job: what the runner will answer, the logs and the output it
  holds, and when the alarm is due. One message waits on the queue.\<close>

definition demo_state ::
  "bool list \<Rightarrow> string list \<Rightarrow> pyobj list \<Rightarrow> bool list \<Rightarrow> (demo_runner, demo_world) state" where
  "demo_state processing lg outp alarm =
     \<lparr>runner = \<lparr>dr_processing = processing, dr_logs = lg, dr_output = outp,
                 dr_error = None, dr_generator = False\<rparr>,
      world = \<lparr>dw_clock = 0, dw_alarm = alarm, dw_sigterm = [False, True],
                dw_pending = [],
                dw_fresh = [(Utf8 ''queue'', [(Utf8 ''1-0'', [(Utf8 ''value'', Utf8 demo_payload)])])]\<rparr>,
      cleanup_functions = [], should_exit = False\<rparr>"

text \<open>A state whose queue holds an entry that is not JSON.\<close>

definition malformed_state :: "(demo_runner, demo_world) state" where
  "malformed_state =
     (demo_state [] [] [] [])\<lparr>world := (world (demo_state [] [] [] []))
        \<lparr>dw_fresh := [(Utf8 ''queue'', [(Utf8 ''2-0'', [(Utf8 ''value'', Utf8 ''not json'')])])]\<rparr>\<rparr>"

text \<open>A state in which an entry is pending for reclaim; its first field has the given
  name.\<close>

definition reclaim_state :: "string \<Rightarrow> (demo_runner, demo_world) state" where
  "reclaim_state field =
     (demo_state [] [] [] [])\<lparr>world := (world (demo_state [] [] [] []))
        \<lparr>dw_pending := [Some (Utf8 ''0-1'', [Utf8 field, Utf8 demo_payload])]\<rparr>\<rparr>"

text \<open>One job on the concrete environment: the message \<^verbatim>\<open>1-0\<close> with the reply channel
  \<^verbatim>\<open>replies\<close>.\<close>

definition demo_job ::
  "int option \<Rightarrow> json \<Rightarrow> bool list \<Rightarrow> string list \<Rightarrow> pyobj list \<Rightarrow> bool list \<Rightarrow>
   unit outcome \<times> (demo_runner, demo_world) state \<times> event list" where
  "demo_job ptimeout message processing lg outp alarm =
     process_message 3 demo_env (demo_worker ptimeout) ''1-0'' (JStr ''replies'') message
       (demo_state processing lg outp alarm)"

section \<open>Lemmas\<close>

subsection \<open>Control flow\<close>


lemma andthenE:
  assumes "andthen m f s = (out, s', evs)"
  obtains (ret) v s1 ev1 ev2 where "m s = (Return v, s1, ev1)" "f v s1 = (out, s', ev2)" "evs = ev1 @ ev2"
        | (exn) e where "m s = (Raise e, s', evs)" "out = Raise e"
        | (fuel) "m s = (OutOfFuel, s', evs)" "out = OutOfFuel"
  using assms unfolding andthen_def
  by (auto split: prod.splits outcome.splits)

lemma try_exceptE:
  assumes "try_except m h s = (out, s', evs)"
  obtains (handled) e s1 ev1 ev2 where "m s = (Raise e, s1, ev1)" "h e s1 = (out, s', ev2)" "evs = ev1 @ ev2"
        | (ret) v where "m s = (Return v, s', evs)" "out = Return v"
        | (fuel) "m s = (OutOfFuel, s', evs)" "out = OutOfFuel"
  using assms unfolding try_except_def
  by (auto split: prod.splits outcome.splits)

lemma try_finallyE:
  assumes "try_finally m c s = (out, s', evs)"
  obtains (fuel) "m s = (OutOfFuel, s', evs)" "out = OutOfFuel"
        | (fin) o1 s1 ev1 u ev2 where "m s = (o1, s1, ev1)" "o1 \<noteq> OutOfFuel"
             "c s1 = (Return u, s', ev2)" "out = o1" "evs = ev1 @ ev2"
        | (cexn) o1 s1 ev1 e ev2 where "m s = (o1, s1, ev1)" "o1 \<noteq> OutOfFuel"
             "c s1 = (Raise e, s', ev2)" "out = Raise e" "evs = ev1 @ ev2"
        | (cfuel) o1 s1 ev1 ev2 where "m s = (o1, s1, ev1)" "o1 \<noteq> OutOfFuel"
             "c s1 = (OutOfFuel, s', ev2)" "out = OutOfFuel" "evs = ev1 @ ev2"
  using assms unfolding try_finally_def
  by (auto split: prod.splits outcome.splits)

lemma emitsI: "(\<And>s out s' evs. m s = (out, s', evs) \<Longrightarrow> list_all P evs) \<Longrightarrow> emits P m"
  unfolding emits_def by (metis prod.collapse)

lemma emitsD: "emits P m \<Longrightarrow> m s = (out, s', evs) \<Longrightarrow> list_all P evs"
  unfolding emits_def by (metis snd_conv)

lemma emits_ret [simp]: "emits P (ret v)"
  by (simp add: emits_def ret_def)

lemma emits_raise [simp]: "emits P (raise e)"
  by (simp add: emits_def raise_def)

lemma emits_out_of_fuel [simp]: "emits P out_of_fuel"
  by (simp add: emits_def out_of_fuel_def)

lemma emits_emit [simp]: "emits P (emit ev) = P ev"
  by (simp add: emits_def emit_def)

lemma emits_andthen:
  assumes "emits P m" "\<And>v. emits P (f v)"
  shows "emits P (andthen m f)"
proof (rule emitsI)
  fix s out s' evs
  assume "andthen m f s = (out, s', evs)"
  then show "list_all P evs"
  proof (cases rule: andthenE)
    case (ret v s1 ev1 ev2)
    then show ?thesis using emitsD [OF assms(1)] emitsD [OF assms(2)] by auto
  next
    case (exn e)
    then show ?thesis using emitsD [OF assms(1)] by auto
  next
    case fuel
    then show ?thesis using emitsD [OF assms(1)] by auto
  qed
qed

lemma emits_try_except:
  assumes "emits P m" "\<And>e. emits P (h e)"
  shows "emits P (try_except m h)"
proof (rule emitsI)
  fix s out s' evs
  assume "try_except m h s = (out, s', evs)"
  then show "list_all P evs"
    by (cases rule: try_exceptE) (use emitsD [OF assms(1)] emitsD [OF assms(2)] in auto)
qed

lemma emits_try_finally:
  assumes "emits P m" "emits P c"
  shows "emits P (try_finally m c)"
proof (rule emitsI)
  fix s out s' evs
  assume "try_finally m c s = (out, s', evs)"
  then show "list_all P evs"
    by (cases rule: try_finallyE) (use emitsD [OF assms(1)] emitsD [OF assms(2)] in auto)
qed


lemma specI: "(\<And>s out s' evs. m s = (out, s', evs) \<Longrightarrow> Q out evs) \<Longrightarrow> spec m Q"
  unfolding spec_def by (metis prod.collapse)

lemma specD: "spec m Q \<Longrightarrow> m s = (out, s', evs) \<Longrightarrow> Q out evs"
  unfolding spec_def by (metis fst_conv snd_conv)

lemma spec_weaken: "spec m Q \<Longrightarrow> (\<And>out evs. Q out evs \<Longrightarrow> Q' out evs) \<Longrightarrow> spec m Q'"
  unfolding spec_def by blast

lemma spec_andthen:
  assumes m: "spec m Q1"
    and f: "\<And>v. spec (f v) (Q2 v)"
    and rr: "\<And>v ev1 out ev2. Q1 (Return v) ev1 \<Longrightarrow> Q2 v out ev2 \<Longrightarrow> Q out (ev1 @ ev2)"
    and re: "\<And>e ev. Q1 (Raise e) ev \<Longrightarrow> Q (Raise e) ev"
    and rf: "\<And>ev. Q1 OutOfFuel ev \<Longrightarrow> Q OutOfFuel ev"
  shows "spec (andthen m f) Q"
proof (rule specI)
  fix s out s' evs
  assume "andthen m f s = (out, s', evs)"
  then show "Q out evs"
  proof (cases rule: andthenE)
    case (ret v s1 ev1 ev2)
    then show ?thesis using specD [OF m] specD [OF f] rr by blast
  next
    case (exn e)
    then show ?thesis using specD [OF m] re by blast
  next
    case fuel
    then show ?thesis using specD [OF m] rf by blast
  qed
qed

lemma emits_spec: "emits P m = spec m (\<lambda>out evs. list_all P evs)"
  by (simp add: emits_def spec_def)

subsection \<open>Frames of appended events\<close>

lemma frames_on_append [simp]: "frames_on q (a @ b) = frames_on q a @ frames_on q b"
  by (simp add: frames_on_def map_filter_def)

lemma frames_on_Nil [simp]: "frames_on q [] = []"
  by (simp add: frames_on_def)

lemma frames_on_Cons:
  "frames_on q (ev # evs) = (case pushed q ev of None \<Rightarrow> frames_on q evs | Some f \<Rightarrow> f # frames_on q evs)"
  unfolding frames_on_def by simp

lemma logs_on_append [simp]: "logs_on q (a @ b) = logs_on q a @ logs_on q b"
  by (simp add: logs_on_def map_filter_def)

lemma logs_on_Nil [simp]: "logs_on q [] = []"
  by (simp add: logs_on_def)

lemma logs_on_frameless: "frames_on q evs = [] \<Longrightarrow> logs_on q evs = []"
  by (simp add: logs_on_def)

lemma quiet_all_processing: "list_all quiet evs \<Longrightarrow> all_processing (frames_on q evs)"
proof (induction evs)
  case Nil
  then show ?case by (simp add: all_processing_def)
next
  case (Cons ev evs)
  then show ?case
    by (cases ev rule: quiet.cases) (auto simp: frames_on_Cons all_processing_def)
qed


subsection \<open>Steps that push nothing\<close>

lemma frameless_Nil [simp]: "frameless q []"
  by (simp add: frameless_def)

lemma frameless_append [simp]: "frameless q (a @ b) = (frameless q a \<and> frameless q b)"
  by (auto simp: frameless_def)

lemma frameless_single:
  "pushed q ev = None \<Longrightarrow> quiet ev \<Longrightarrow> frameless q [ev]"
  by (simp add: frameless_def frames_on_Cons)

lemma spec_ret: "Q (Return v) [] \<Longrightarrow> spec (ret v) Q"
  by (simp add: spec_def ret_def)

lemma spec_raise: "Q (Raise e) [] \<Longrightarrow> spec (raise e) Q"
  by (simp add: spec_def raise_def)

lemma spec_out_of_fuel: "Q OutOfFuel [] \<Longrightarrow> spec out_of_fuel Q"
  by (simp add: spec_def out_of_fuel_def)

lemma interruptE:
  assumes "interrupt E t s = (out, s', evs)"
  obtains "out = Return ()" "evs = []"
        | "out = Raise (TimeoutError (error_message t))" "evs = [Sigalrm]" "armed t"
  using assms unfolding interrupt_def
  by (auto split: if_splits prod.splits bool.splits)

lemma spec_interrupt: "spec (interrupt E t) (\<lambda>out evs. frameless q evs)"
  by (rule specI, erule interruptE) (auto intro: frameless_single)

lemma spec_runner_call: "spec (runner_call f) (\<lambda>out evs. frameless q evs)"
  by (rule specI) (auto simp: runner_call_def split: prod.splits)

lemma spec_world_call: "spec (world_call f) (\<lambda>out evs. frameless q evs)"
  by (rule specI) (auto simp: world_call_def split: prod.splits sum.splits)

lemma spec_time_now: "spec (time_now E) (\<lambda>out evs. frameless q evs)"
  by (rule specI) (auto simp: time_now_def split: prod.splits)

lemma spec_run_predictor: "spec (run_predictor E i) (\<lambda>out evs. frameless q evs)"
  by (rule specI) (auto simp: run_predictor_def intro: frameless_single)

lemma spec_frameless_andthen:
  assumes "spec m (\<lambda>out evs. frameless q evs)" "\<And>v. spec (f v) (\<lambda>out evs. frameless q evs)"
  shows "spec (andthen m f) (\<lambda>out evs. frameless q evs)"
  by (rule spec_andthen [OF assms]) auto

lemma spec_guarded:
  "spec m (\<lambda>out evs. frameless q evs) \<Longrightarrow> spec (guarded E t m) (\<lambda>out evs. frameless q evs)"
  unfolding guarded_def by (rule spec_frameless_andthen [OF spec_interrupt])

lemmas spec_poll = spec_guarded [OF spec_runner_call]

lemma spec_encode: "spec (guarded E t (encode_json E w obj)) (\<lambda>out evs. frameless q evs)"
  unfolding encode_json_def by (rule spec_guarded [OF spec_world_call])

lemma spec_encode_list: "spec (encode_list E t w objs) (\<lambda>out evs. frameless q evs)"
proof (induction objs)
  case Nil
  show ?case by (simp add: spec_ret)
next
  case (Cons obj objs)
  show ?case
    by (simp, intro spec_frameless_andthen spec_encode Cons spec_ret) simp
qed

lemma pushE:
  assumes "push E t q fr s = (out, s', evs)"
  obtains "out = Return ()" "evs = [Redis (RPUSH q fr)]"
        | "out = Raise (TimeoutError (error_message t))" "evs = [Sigalrm]" "armed t"
        | e where "out = Raise e" "evs = [RedisFailed (RPUSH q fr) e]"
proof -
  from assms show ?thesis
    unfolding push_def guarded_def
  proof (cases rule: andthenE)
    case (ret v s1 ev1 ev2)
    from ret(1) have "ev1 = []" by (rule interruptE) auto
    with ret that(1,3) show ?thesis
      by (auto simp: redis_call_def split: prod.splits sum.splits)
  next
    case (exn e)
    from exn(1) show ?thesis by (rule interruptE) (use exn that(2) in auto)
  next
    case fuel
    from fuel(1) show ?thesis by (rule interruptE) auto
  qed
qed

subsection \<open>Loops\<close>

lemma bounded_logs_frameless: "frameless q evs \<Longrightarrow> bounded_logs q lo evs"
  by (simp add: bounded_logs_def frameless_def logs_on_frameless)

lemma loop_post_frameless:
  "frameless q evs \<Longrightarrow> (\<And>v. out = Return v \<Longrightarrow> prefix lo (g v)) \<Longrightarrow> loop_post q g lo out evs"
  by (auto simp: loop_post_def bounded_logs_frameless frameless_def logs_on_frameless
      split: outcome.splits)

lemma loop_post_prepend:
  "frameless q ev1 \<Longrightarrow> loop_post q g lo out ev2 \<Longrightarrow> loop_post q g lo out (ev1 @ ev2)"
  by (auto simp: loop_post_def bounded_logs_def frameless_def logs_on_frameless
      split: outcome.splits)

lemma LS_step:
  assumes "spec m (\<lambda>out evs. frameless q evs)" "\<And>v. spec (f v) (loop_post q g lo)"
  shows "spec (andthen m f) (loop_post q g lo)"
  by (rule spec_andthen [OF assms]) (auto intro: loop_post_prepend loop_post_frameless)

lemma logs_on_push [simp]:
  "logs_on q [Redis (RPUSH q (response st ov lg err))] = [lg]"
  by (simp add: logs_on_def frames_on_def response_def)

lemma loop_post_push:
  assumes "loop_post q g (lo @ new) out evs"
  shows "loop_post q g lo out (Redis (RPUSH q (response PROCESSING ov (lo @ new) None)) # evs)"
proof -
  have "logs_on q (Redis (RPUSH q (response PROCESSING ov (lo @ new) None)) # evs)
          = (lo @ new) # logs_on q evs"
    using logs_on_append [of q "[Redis (RPUSH q (response PROCESSING ov (lo @ new) None))]" evs]
    by simp
  then show ?thesis
    using assms
    by (auto simp: loop_post_def bounded_logs_def response_def list_all_iff
        split: outcome.splits dest: append_prefixD)
qed

lemma LS_push:
  assumes "\<And>u. spec (f u) (loop_post q g (lo @ new))"
  shows "spec (andthen (push E t q (response PROCESSING ov (lo @ new) None)) f) (loop_post q g lo)"
proof (rule specI)
  fix s out s' evs
  assume "andthen (push E t q (response PROCESSING ov (lo @ new) None)) f s = (out, s', evs)"
  then show "loop_post q g lo out evs"
  proof (cases rule: andthenE)
    case (ret v s1 ev1 ev2)
    from ret(1) have "ev1 = [Redis (RPUSH q (response PROCESSING ov (lo @ new) None))]"
      by (rule pushE) auto
    with ret specD [OF assms ret(2)] show ?thesis
      by (simp add: loop_post_push)
  next
    case (exn e)
    from exn(1) have "frameless q evs"
      by (rule pushE) (auto intro: frameless_single)
    with exn show ?thesis by (auto intro: loop_post_frameless)
  next
    case fuel
    from fuel(1) show ?thesis by (rule pushE) auto
  qed
qed

lemma spec_if: "(b \<Longrightarrow> spec m1 Q) \<Longrightarrow> (\<not> b \<Longrightarrow> spec m2 Q) \<Longrightarrow> spec (if b then m1 else m2) Q"
  by simp

lemma loop_post_ret: "prefix lo (g v) \<Longrightarrow> spec (ret v) (loop_post q g lo)"
  by (rule spec_ret) (auto intro: loop_post_frameless)

lemma loop_post_out_of_fuel: "spec out_of_fuel (loop_post q g lo)"
  by (rule spec_out_of_fuel) (auto intro: loop_post_frameless)

lemma pre_loop_spec: "spec (pre_loop n E t q lo) (loop_post q id lo)"
proof (induction n arbitrary: lo)
  case 0
  show ?case by (simp add: loop_post_out_of_fuel)
next
  case (Suc n)
  show ?case
    apply (simp only: pre_loop.simps)
    apply (rule LS_step [OF spec_poll])
    apply (rule spec_if)
     apply (rule loop_post_ret, simp)
    apply (rule LS_step [OF spec_poll])
    apply (rule spec_if)
     apply (rule loop_post_ret, simp)
    apply (rule LS_step [OF spec_poll])
    apply (rule spec_if)
     apply (rule LS_step [OF spec_poll])
     apply (rule LS_push)
     apply (rule Suc)
    apply (rule Suc)
    done
qed

lemma scalar_loop_spec: "spec (scalar_loop n E t q lo) (loop_post q id lo)"
proof (induction n arbitrary: lo)
  case 0
  show ?case by (simp add: loop_post_out_of_fuel)
next
  case (Suc n)
  show ?case
    apply (simp only: scalar_loop.simps)
    apply (rule LS_step [OF spec_poll])
    apply (rule spec_if)
     apply (rule loop_post_ret, simp)
    apply (rule LS_step [OF spec_poll])
    apply (rule spec_if)
     apply (rule LS_step [OF spec_poll])
     apply (rule LS_push)
     apply (rule Suc)
    apply (rule Suc)
    done
qed

lemma gen_loop_spec: "spec (gen_loop n E t w q acc lo) (loop_post q snd lo)"
proof (induction n arbitrary: lo acc)
  case 0
  show ?case by (simp add: loop_post_out_of_fuel)
next
  case (Suc n)
  show ?case
    apply (simp only: gen_loop.simps)
    apply (rule LS_step [OF spec_poll])
    apply (rule spec_if)
     apply (rule loop_post_ret, simp)
    apply (rule LS_step [OF spec_poll])
    apply (rule LS_step)
     apply (rule spec_if)
      apply (rule spec_ret, simp)
     apply (rule spec_poll)
    apply (rule spec_if)
     apply (rule LS_step [OF spec_poll])
     apply (rule LS_step [OF spec_encode_list])
     apply (rule LS_step [OF spec_poll])
     apply (rule spec_if)
      apply (rule Suc)
     apply (rule LS_push)
     apply (rule Suc)
    apply (rule Suc)
    done
qed


subsection \<open>The end of the guarded block\<close>

lemma finished_append: "frameless q ev1 \<Longrightarrow> finished q ev2 \<Longrightarrow> finished q (ev1 @ ev2)"
  by (auto simp: finished_def frameless_def butlast_append)

lemma tail_post_prepend:
  "frameless q ev1 \<Longrightarrow> tail_post q lo out ev2 \<Longrightarrow> tail_post q lo out (ev1 @ ev2)"
  by (auto simp: tail_post_def bounded_logs_def frameless_def logs_on_frameless finished_append
      split: outcome.splits)

lemma tail_post_frameless:
  "frameless q evs \<Longrightarrow> (\<And>u. out \<noteq> Return u) \<Longrightarrow> tail_post q lo out evs"
  by (cases out) (auto simp: tail_post_def bounded_logs_frameless frameless_def)

lemma TS_step:
  assumes "spec m (\<lambda>out evs. frameless q evs)" "\<And>v. spec (f v) (tail_post q lo)"
  shows "spec (andthen m f) (tail_post q lo)"
  by (rule spec_andthen [OF assms]) (auto intro: tail_post_prepend tail_post_frameless)

lemma tail_post_after_loop:
  assumes "loop_post q g lo (Return v) ev1" "tail_post q (g v) out ev2"
  shows "tail_post q lo out (ev1 @ ev2)"
proof -
  from assms have q1: "list_all quiet ev1" and s1: "sorted_wrt prefix (logs_on q ev1)"
    and l1: "list_all (prefix lo) (logs_on q ev1)" and lv: "prefix lo (g v)"
    and u1: "list_all (\<lambda>l. prefix l (g v)) (logs_on q ev1)"
    by (simp_all add: loop_post_def bounded_logs_def)
  from assms have s2: "sorted_wrt prefix (logs_on q ev2)"
    and l2: "list_all (prefix (g v)) (logs_on q ev2)"
    by (simp_all add: tail_post_def bounded_logs_def)
  have cross: "\<forall>x\<in>set (logs_on q ev1). \<forall>y\<in>set (logs_on q ev2). prefix x y"
    using u1 l2 by (auto simp: list_all_iff intro: prefix_order.trans)
  have low: "list_all (prefix lo) (logs_on q ev2)"
    using l2 lv by (auto simp: list_all_iff intro: prefix_order.trans)
  have b: "bounded_logs q lo (ev1 @ ev2)"
    using s1 s2 cross l1 low by (simp add: bounded_logs_def sorted_wrt_append)
  have fl: "frameless q ev1 \<or> True" by simp
  show ?thesis
  proof (cases out)
    case (Return u)
    with assms(2) have "finished q ev2" by (simp add: tail_post_def)
    with q1 have "finished q (ev1 @ ev2)"
      by (auto simp: finished_def butlast_append)
    with b Return show ?thesis by (simp add: tail_post_def)
  next
    case (Raise e)
    with assms(2) q1 b show ?thesis by (simp add: tail_post_def)
  next
    case OutOfFuel
    with assms(2) q1 b show ?thesis by (simp add: tail_post_def)
  qed
qed

lemma tail_post_loop_stopped:
  assumes "loop_post q g lo out ev" "\<And>v. out \<noteq> Return v"
  shows "tail_post q lo out' ev \<or> True"
  by simp

lemma TS_loop:
  assumes m: "spec m (loop_post q g lo)" and f: "\<And>v. spec (f v) (tail_post q (g v))"
  shows "spec (andthen m f) (tail_post q lo)"
proof (rule spec_andthen [OF m f])
  fix v ev1 out ev2
  assume "loop_post q g lo (Return v) ev1" "tail_post q (g v) out ev2"
  then show "tail_post q lo out (ev1 @ ev2)" by (rule tail_post_after_loop)
next
  fix e ev
  assume "loop_post q g lo (Raise e) ev"
  then show "tail_post q lo (Raise e) ev" by (simp add: loop_post_def tail_post_def)
next
  fix ev
  assume "loop_post q g lo OutOfFuel ev"
  then show "tail_post q lo OutOfFuel ev" by (simp add: loop_post_def tail_post_def)
qed

lemma TS_push:
  assumes "terminal fr" "frame_logs fr = Some l" "prefix lo l"
  shows "spec (push E t q fr) (tail_post q lo)"
proof (rule specI)
  fix s out s' evs
  assume "push E t q fr s = (out, s', evs)"
  then show "tail_post q lo out evs"
  proof (cases rule: pushE)
    case 1
    with assms show ?thesis
      by (simp add: tail_post_def bounded_logs_def logs_on_def frames_on_def finished_def)
  next
    case 2
    then show ?thesis by (auto intro!: tail_post_frameless frameless_single)
  next
    case (3 e)
    then show ?thesis by (auto intro!: tail_post_frameless frameless_single)
  qed
qed

lemma TS_push_response:
  "st \<noteq> PROCESSING \<Longrightarrow> prefix lo lg \<Longrightarrow> spec (push E t q (response st ov lg err)) (tail_post q lo)"
  by (rule TS_push [where l = lg]) (cases st; simp add: response_def terminal_def)+

lemma push_failed_spec: "spec (push_failed E t q ov lo) (tail_post q lo)"
  unfolding push_failed_def
  by (rule TS_step [OF spec_poll], rule TS_push_response) simp_all

lemma gen_finish_spec: "spec (gen_finish E t w q acc lo) (tail_post q lo)"
  unfolding gen_finish_def
  apply (rule TS_step [OF spec_poll])
  apply (rule TS_step [OF spec_encode_list])
  apply (rule TS_step [OF spec_poll])
  apply (rule TS_push_response)
   apply simp_all
  done

lemma scalar_finish_spec: "spec (scalar_finish E t w q lo) (tail_post q lo)"
  unfolding scalar_finish_def
  apply (rule TS_step [OF spec_poll])
  apply (rule spec_if)
   apply (rule spec_raise)
   apply (simp add: tail_post_frameless)
  apply (rule TS_step [OF spec_encode])
  apply (rule TS_step [OF spec_poll])
  apply (rule TS_push_response)
   apply simp_all
  done

lemma drive_spec: "spec (drive n E t w q i) (tail_post q [])"
  unfolding drive_def
  apply (rule TS_step [OF spec_guarded [OF spec_run_predictor]])
  apply (rule TS_loop [OF pre_loop_spec])
  apply (simp only: id_apply)
  apply (rule TS_step [OF spec_poll])
  apply (rule spec_if)
   apply (rule push_failed_spec)
  apply (rule TS_step [OF spec_poll])
  apply (rule spec_if)
   apply (rule TS_loop [OF gen_loop_spec])
   apply (simp only: split_beta)
   apply (rule TS_step [OF spec_poll])
   apply (rule spec_if)
    apply (rule push_failed_spec)
   apply (rule gen_finish_spec)
  apply (rule TS_loop [OF scalar_loop_spec])
  apply (simp only: id_apply)
  apply (rule TS_step [OF spec_poll])
  apply (rule spec_if)
   apply (rule push_failed_spec)
  apply (rule scalar_finish_spec)
  done


subsection \<open>handle_message\<close>

lemma finished_one_terminal: "finished q evs \<Longrightarrow> one_terminal_last (frames_on q evs)"
proof -
  assume fin: "finished q evs"
  then obtain f where ne: "evs \<noteq> []" and f: "pushed q (last evs) = Some f" "terminal f"
    and qu: "list_all quiet (butlast evs)"
    by (auto simp: finished_def split: option.splits)
  have "evs = butlast evs @ [last evs]" using ne by simp
  then have "frames_on q evs = frames_on q (butlast evs) @ frames_on q [last evs]"
    by (metis frames_on_append)
  with f have "frames_on q evs = frames_on q (butlast evs) @ [f]"
    by (simp add: frames_on_Cons)
  with f(2) quiet_all_processing [OF qu, of q] show ?thesis
    by (simp add: one_terminal_last_def)
qed

lemma late_alarm_append: "late_alarm q a \<Longrightarrow> late_alarm q (a @ b)"
  by (induction a) (auto split: option.splits)

lemma late_alarm_prepend: "late_alarm q b \<Longrightarrow> late_alarm q (a @ b)"
  by (induction a) (auto split: option.splits)

lemma late_alarm_finished:
  assumes "finished q evs"
  shows "late_alarm q (evs @ Sigalrm # c)"
proof -
  from assms obtain f where ne: "evs \<noteq> []" and f: "pushed q (last evs) = Some f" "terminal f"
    by (auto simp: finished_def split: option.splits)
  from ne have e: "butlast evs @ [last evs] = evs" by simp
  have "late_alarm q (last evs # Sigalrm # c)" using f by simp
  then have "late_alarm q (butlast evs @ last evs # Sigalrm # c)" by (rule late_alarm_prepend)
  then have "late_alarm q ((butlast evs @ [last evs]) @ Sigalrm # c)" by simp
  then show ?thesis by (simp only: e)
qed

lemma frameless_alarm [simp]: "frameless q [SignalAlarm n]"
  by (simp add: frameless_def frames_on_Cons)

lemma timeout_enterE:
  assumes "timeout_enter E t s = (out, s', evs)"
  obtains "out = Return ()" "frameless q evs"
        | "out = Raise (TimeoutError (error_message t))" "evs = []"
  using assms unfolding timeout_enter_def handle_timeout_def raise_def ret_def
  by (auto split: option.splits if_splits)

lemma timeout_exitE:
  assumes "timeout_exit E t s = (out, s', evs)"
  obtains "out = Return ()" "frameless q evs"
  using assms unfolding timeout_exit_def ret_def
  by (auto split: option.splits)

lemma job_post_frameless: "frameless q evs \<Longrightarrow> (\<And>u. out \<noteq> Return u) \<Longrightarrow> job_post q out evs"
  by (cases out) (auto simp: job_post_def frameless_def logs_on_frameless all_processing_def)

lemma job_post_prepend:
  assumes "frameless q ev1" "job_post q out ev2"
  shows "job_post q out (ev1 @ ev2)"
  using assms
  by (cases out)
     (auto simp: job_post_def frameless_def logs_on_frameless intro: late_alarm_prepend)

lemma job_post_append:
  assumes "job_post q out ev1" "frameless q ev2"
  shows "job_post q out (ev1 @ ev2)"
  using assms
  by (cases out)
     (auto simp: job_post_def frameless_def logs_on_frameless intro: late_alarm_append)

lemma JS_step:
  assumes "spec m (\<lambda>out evs. frameless q evs)" "\<And>v. spec (f v) (job_post q)"
  shows "spec (andthen m f) (job_post q)"
  by (rule spec_andthen [OF assms]) (auto intro: job_post_prepend job_post_frameless)

lemma guarded_block_spec:
  assumes body: "spec body (tail_post q lo)" and msg: "error_message t = ''Prediction timed out''"
  shows "spec (andthen body (\<lambda>v. andthen (interrupt E t) (\<lambda>_. ret v))) (job_post q)"
proof (rule specI)
  fix s out s' evs
  assume "andthen body (\<lambda>v. andthen (interrupt E t) (\<lambda>_. ret v)) s = (out, s', evs)"
  then show "job_post q out evs"
  proof (cases rule: andthenE)
    case (ret v s1 ev1 ev2)
    from specD [OF body ret(1)] have fin: "finished q ev1" and b: "bounded_logs q lo ev1"
      by (simp_all add: tail_post_def)
    from ret(2) show ?thesis
    proof (cases rule: andthenE)
      case (ret u s2 ev3 ev4)
      from ret(1) have "ev3 = []" by (rule interruptE) auto
      moreover from ret(2) have "ev4 = []" "out = Return v" by (simp_all add: ret_def)
      ultimately show ?thesis
        using fin b \<open>evs = ev1 @ ev2\<close> \<open>ev2 = ev3 @ ev4\<close>
        by (simp add: job_post_def bounded_logs_def finished_one_terminal)
    next
      case (exn e)
      from exn(1) have "ev2 = [Sigalrm]" "e = TimeoutError (error_message t)"
        by (rule interruptE; simp)+
      with exn fin b msg \<open>evs = ev1 @ ev2\<close> show ?thesis
        using late_alarm_finished [OF fin, of "[]"]
        by (simp add: job_post_def bounded_logs_def logs_on_def frames_on_Cons)
    next
      case fuel
      from fuel(1) show ?thesis by (rule interruptE) auto
    qed
  next
    case (exn e)
    with specD [OF body exn(1)] show ?thesis
      by (simp add: tail_post_def job_post_def bounded_logs_def quiet_all_processing)
  next
    case fuel
    with specD [OF body fuel(1)] show ?thesis
      by (simp add: tail_post_def job_post_def bounded_logs_def quiet_all_processing)
  qed
qed

lemma with_timeout_spec:
  assumes body: "spec body (tail_post q lo)" and msg: "error_message t = ''Prediction timed out''"
  shows "spec (with_timeout E t body) (job_post q)"
proof (rule specI)
  fix s out s' evs
  assume "with_timeout E t body s = (out, s', evs)"
  then show "job_post q out evs"
    unfolding with_timeout_def
  proof (cases rule: andthenE)
    case (ret v s1 ev1 ev2)
    from ret(1) have fl1: "frameless q ev1" by (rule timeout_enterE [where q = q]) auto
    from ret(2) have "job_post q out ev2"
    proof (cases rule: try_finallyE)
      case fuel
      with specD [OF guarded_block_spec [OF body msg] fuel(1)] show ?thesis by simp
    next
      case (fin o1 s2 ev3 u ev4)
      from fin(3) have "frameless q ev4" by (rule timeout_exitE [where q = q])
      with specD [OF guarded_block_spec [OF body msg] fin(1)] fin show ?thesis
        by (simp add: job_post_append)
    next
      case (cexn o1 s2 ev3 e ev4)
      from cexn(3) show ?thesis by (rule timeout_exitE) simp
    next
      case (cfuel o1 s2 ev3 ev4)
      from cfuel(3) show ?thesis by (rule timeout_exitE) simp
    qed
    with fl1 ret(3) show ?thesis by (simp add: job_post_prepend)
  next
    case (exn e)
    from exn(1) have "evs = []" by (rule timeout_enterE) auto
    with exn show ?thesis by (simp add: job_post_def all_processing_def)
  next
    case fuel
    from fuel(1) show ?thesis by (rule timeout_enterE) auto
  qed
qed


lemma except_validationE:
  assumes "except_validation m h s = (out, s', evs)"
  obtains (handled) v s1 ev1 ev2 where "m s = (Raise (ValidationError v), s1, ev1)"
            "h (ValidationError v) s1 = (out, s', ev2)" "evs = ev1 @ ev2"
        | (other) "m s = (out, s', evs)" "\<And>v. out \<noteq> Raise (ValidationError v)"
  using assms unfolding except_validation_def
  by (auto split: prod.splits outcome.splits exn.splits)

lemma make_inputE:
  assumes "make_input E msg s = (out, s', evs)"
  obtains "evs = []" "runner s' = runner s" "cleanup_functions s' = cleanup_functions s"
    "should_exit s' = should_exit s"
  using assms unfolding make_input_def lift_sum_def
  by (auto elim!: andthenE simp: raise_def ret_def world_call_def
      split: json.splits option.splits prod.splits sum.splits)

lemma push_errorE:
  assumes "push_error E w q e s = (out, s', evs)"
  obtains (ok) "out = Return ()" "evs = [Stderr (PushingError q), Redis (RPUSH q (error_frame e))]"
            "redis_write E (RPUSH q (error_frame e)) (world s) = (Inr (), world s')"
        | (failed) e' where "out = Raise e'"
            "evs = [Stderr (PushingError q), RedisFailed (RPUSH q (error_frame e)) e']"
  using assms unfolding push_error_def stderr_write_def emit_def redis_call_def
  by (auto elim!: andthenE split: prod.splits sum.splits)

lemma push_error_state:
  assumes "push_error E w q e s = (out, s', evs)"
  shows "runner s' = runner s \<and> cleanup_functions s' = cleanup_functions s \<and> should_exit s' = should_exit s"
  using assms unfolding push_error_def stderr_write_def emit_def redis_call_def
  by (auto elim!: andthenE split: prod.splits sum.splits)

lemma terminal_error_frame [simp]: "terminal (error_frame e)"
  by (simp add: terminal_def error_frame_def)

lemma frame_logs_error_frame [simp]: "frame_logs (error_frame e) = None"
  by (simp add: error_frame_def)

lemma validated_spec:
  "spec (except_validation (andthen (make_input E msg) (\<lambda>i. ret (Some i)))
          (\<lambda>e. andthen (stderr_write (Traceback e)) (\<lambda>_.
                 andthen (push_error E w q e) (\<lambda>_. ret None))))
     (\<lambda>out evs. case out of
         Return None \<Rightarrow> finished q evs \<and> logs_on q evs = []
       | Return (Some i) \<Rightarrow> evs = []
       | _ \<Rightarrow> frameless q evs)"
proof (rule specI)
  fix s out s' evs
  assume "except_validation (andthen (make_input E msg) (\<lambda>i. ret (Some i)))
          (\<lambda>e. andthen (stderr_write (Traceback e)) (\<lambda>_.
                 andthen (push_error E w q e) (\<lambda>_. ret None))) s = (out, s', evs)"
  then show "case out of
         Return None \<Rightarrow> finished q evs \<and> logs_on q evs = []
       | Return (Some i) \<Rightarrow> evs = []
       | _ \<Rightarrow> frameless q evs"
  proof (cases rule: except_validationE)
    case (handled v s1 ev1 ev2)
    from handled(1) have "ev1 = []"
      by (auto elim!: andthenE make_inputE simp: ret_def)
    moreover from handled(2) have
      "(out = Return None \<and> ev2 = [Stderr (Traceback (ValidationError v)),
          Stderr (PushingError q), Redis (RPUSH q (error_frame (ValidationError v)))])
       \<or> ((\<exists>e. out = Raise e) \<and> frameless q ev2)"
      by (auto elim!: andthenE push_errorE simp: ret_def stderr_write_def emit_def
          frameless_def frames_on_Cons)
    ultimately show ?thesis
      using handled(3)
      by (auto simp: finished_def logs_on_def frames_on_Cons)
  next
    case other
    from other(1) show ?thesis
      by (auto elim!: andthenE make_inputE simp: ret_def)
  qed
qed

lemma spec_append_cleanup: "spec (append_cleanup i) (\<lambda>out evs. frameless q evs)"
  by (rule specI) (auto simp: append_cleanup_def)

lemma error_message_timeout_init [simp]: "error_message (timeout_init secs el msg) = msg"
  by (simp add: timeout_init_def)

lemma handle_message_spec: "spec (handle_message n E w q msg) (job_post q)"
  unfolding handle_message_def
proof (rule spec_andthen [OF validated_spec,
      where ?Q2.0 = "\<lambda>v out evs. case v of None \<Rightarrow> out = Return () \<and> evs = []
                                    | Some i \<Rightarrow> job_post q out evs"])
  fix v
  show "spec (case v of None \<Rightarrow> ret ()
       | Some input_obj \<Rightarrow>
           andthen (append_cleanup input_obj) (\<lambda>_.
             andthen (time_now E) (\<lambda>start_time.
               with_timeout E (timeout_init (predict_timeout w) None ''Prediction timed out'')
                 (drive n E (timeout_init (predict_timeout w) None ''Prediction timed out'')
                    w q input_obj))))
     (\<lambda>out evs. case v of None \<Rightarrow> out = Return () \<and> evs = [] | Some i \<Rightarrow> job_post q out evs)"
  proof (cases v)
    case None
    then show ?thesis by (simp add: spec_def ret_def)
  next
    case (Some i)
    then show ?thesis
      apply simp
      apply (rule JS_step [OF spec_append_cleanup])
      apply (rule JS_step [OF spec_time_now])
      apply (rule with_timeout_spec [OF drive_spec])
      apply simp
      done
  qed
next
  fix v ev1 out ev2
  assume a: "case Return v of Return None \<Rightarrow> finished q ev1 \<and> logs_on q ev1 = []
       | Return (Some i) \<Rightarrow> ev1 = [] | _ \<Rightarrow> frameless q ev1"
    and b: "case v of None \<Rightarrow> out = Return () \<and> ev2 = [] | Some i \<Rightarrow> job_post q out ev2"
  show "job_post q out (ev1 @ ev2)"
  proof (cases v)
    case None
    with a b show ?thesis by (simp add: job_post_def finished_one_terminal)
  next
    case (Some i)
    with a b show ?thesis by simp
  qed
next
  fix e ev
  assume "case Raise e of Return None \<Rightarrow> finished q ev \<and> logs_on q ev = []
       | Return (Some i) \<Rightarrow> ev = [] | _ \<Rightarrow> frameless q ev"
  then show "job_post q (Raise e) ev" by (simp add: job_post_frameless)
next
  fix ev
  assume "case OutOfFuel of Return None \<Rightarrow> finished q ev \<and> logs_on q ev = []
       | Return (Some i) \<Rightarrow> ev = [] | _ \<Rightarrow> frameless q ev"
  then show "job_post q OutOfFuel ev" by (simp add: job_post_frameless)
qed

subsection \<open>The kinds of events of handle_message\<close>

lemma emits_mono: "emits P m \<Longrightarrow> (\<And>ev. P ev \<Longrightarrow> Q ev) \<Longrightarrow> emits Q m"
  unfolding emits_def list_all_iff by blast

lemma emits_runner_call [simp]: "emits P (runner_call f)"
  by (simp add: emits_def runner_call_def split: prod.splits)

lemma emits_world_call [simp]: "emits P (world_call f)"
  by (simp add: emits_def world_call_def split: prod.splits sum.splits)

lemma emits_time_now [simp]: "emits P (time_now E)"
  by (simp add: emits_def time_now_def split: prod.splits)

lemma emits_redis_call: "P (Redis c) \<Longrightarrow> (\<And>e. P (RedisFailed c e)) \<Longrightarrow> emits P (redis_call E c)"
  by (simp add: emits_def redis_call_def split: prod.splits sum.splits)

lemma emits_interrupt: "P Sigalrm \<Longrightarrow> emits P (interrupt E t)"
  by (simp add: emits_def interrupt_def split: prod.splits bool.splits)

lemma emits_guarded: "P Sigalrm \<Longrightarrow> emits P m \<Longrightarrow> emits P (guarded E t m)"
  unfolding guarded_def by (intro emits_andthen emits_interrupt)

lemma emits_push: "emits (job_event q) (push E t q fr)"
  unfolding push_def by (intro emits_guarded emits_redis_call) simp_all

lemma emits_poll: "emits (job_event q) (guarded E t (runner_call f))"
  by (intro emits_guarded) simp_all

lemma emits_encode: "emits (job_event q) (guarded E t (encode_json E w obj))"
  unfolding encode_json_def by (intro emits_guarded) simp_all

lemma emits_encode_list: "emits (job_event q) (encode_list E t w objs)"
  by (induction objs) (auto intro!: emits_andthen emits_encode)

lemma emits_if: "(b \<Longrightarrow> emits P m1) \<Longrightarrow> (\<not> b \<Longrightarrow> emits P m2) \<Longrightarrow> emits P (if b then m1 else m2)"
  by simp

lemma emits_pre_loop: "emits (job_event q) (pre_loop n E t q lo)"
  by (induction n arbitrary: lo)
     (auto intro!: emits_andthen emits_poll emits_push)

lemma emits_scalar_loop: "emits (job_event q) (scalar_loop n E t q lo)"
  by (induction n arbitrary: lo)
     (auto intro!: emits_andthen emits_poll emits_push)

lemma emits_gen_loop: "emits (job_event q) (gen_loop n E t w q acc lo)"
  by (induction n arbitrary: lo acc)
     (auto intro!: emits_andthen emits_poll emits_push emits_encode_list)

lemma emits_push_failed: "emits (job_event q) (push_failed E t q ov lo)"
  unfolding push_failed_def by (intro emits_andthen emits_poll emits_push)

lemma emits_gen_finish: "emits (job_event q) (gen_finish E t w q acc lo)"
  unfolding gen_finish_def by (intro emits_andthen emits_poll emits_push emits_encode_list)

lemma emits_scalar_finish: "emits (job_event q) (scalar_finish E t w q lo)"
  unfolding scalar_finish_def
  by (auto intro!: emits_andthen emits_poll emits_push emits_encode)

lemma emits_run_predictor: "emits (job_event q) (guarded E t (run_predictor E i))"
  by (intro emits_guarded) (simp_all add: emits_def run_predictor_def)

lemma emits_drive: "emits (job_event q) (drive n E t w q i)"
  unfolding drive_def
  by (auto intro!: emits_andthen emits_poll emits_run_predictor emits_pre_loop
      emits_push_failed emits_gen_loop emits_gen_finish emits_scalar_loop emits_scalar_finish)

lemma emits_with_timeout:
  assumes "emits (job_event q) body"
  shows "emits (job_event q) (with_timeout E t body)"
  unfolding with_timeout_def
  by (intro emits_andthen emits_try_finally assms emits_interrupt)
     (auto simp: emits_def timeout_enter_def timeout_exit_def handle_timeout_def raise_def ret_def
      split: option.splits)

lemma emits_push_error: "emits (job_event q) (push_error E w q e)"
  unfolding push_error_def stderr_write_def
  by (intro emits_andthen emits_redis_call) simp_all

lemma emits_except_validation:
  assumes "emits P m" "\<And>e. emits P (h e)"
  shows "emits P (except_validation m h)"
proof (rule emitsI)
  fix s out s' evs
  assume "except_validation m h s = (out, s', evs)"
  then show "list_all P evs"
    by (cases rule: except_validationE) (use emitsD [OF assms(1)] emitsD [OF assms(2)] in auto)
qed

lemma emits_make_input: "emits P (make_input E msg)"
  by (rule emitsI) (auto elim: make_inputE)

lemma emits_append_cleanup [simp]: "emits P (append_cleanup i)"
  by (simp add: emits_def append_cleanup_def)

lemma emits_handle_message: "emits (job_event q) (handle_message n E w q msg)"
  unfolding handle_message_def
  by (auto intro!: emits_andthen emits_except_validation emits_make_input emits_push_error
      emits_with_timeout emits_drive
      simp: stderr_write_def split: option.splits)



subsection \<open>process_message\<close>

lemma cleanup_step:
  assumes "andthen (emit (CleanupCall c)) (\<lambda>_.
             try_except (world_call (input_cleanup E c))
               (\<lambda>e. stderr_write (CleanupError e))) s = (out, s', evs)"
  shows "out = Return () \<and> list_all cleanup_event evs \<and> runner s' = runner s"
  using assms
  by (auto simp: andthen_def try_except_def emit_def stderr_write_def world_call_def
      split: prod.splits sum.splits outcome.splits)

lemma run_cleanups_result:
  "run_cleanups E cs s = (out, s', evs) \<Longrightarrow>
     out = Return () \<and> list_all cleanup_event evs \<and> runner s' = runner s"
proof (induction cs arbitrary: s out s' evs)
  case Nil
  then show ?case by (simp add: ret_def)
next
  case (Cons c cs)
  from Cons.prems have "andthen (andthen (emit (CleanupCall c)) (\<lambda>_.
             try_except (world_call (input_cleanup E c))
               (\<lambda>e. stderr_write (CleanupError e)))) (\<lambda>_. run_cleanups E cs) s = (out, s', evs)"
    by simp
  then show ?case
  proof (cases rule: andthenE)
    case (ret v s1 ev1 ev2)
    from cleanup_step [OF ret(1)] Cons.IH [OF ret(2)] ret(3) show ?thesis by simp
  next
    case (exn e)
    from cleanup_step [OF exn(1)] show ?thesis by simp
  next
    case fuel
    from cleanup_step [OF fuel(1)] show ?thesis by simp
  qed
qed

lemma ack_and_deleteE:
  assumes "ack_and_delete E w mid s = (out, s', evs)"
  obtains (ok) "out = Return ()"
            "evs = [Redis (XACK (input_queue w) (input_queue w) mid), Redis (XDEL (input_queue w) mid)]"
        | (failed) e where "out = Raise e" "\<not> redis_ok evs" "frames_on q evs = []"
            "list_all (\<lambda>ev. \<not> xadd_to stream ev) evs"
  using assms unfolding ack_and_delete_def redis_call_def
  by (auto elim!: andthenE simp: redis_ok_def frames_on_Cons split: prod.splits sum.splits)


lemma time_now_job_start:
  "time_now E (s\<lparr>cleanup_functions := []\<rparr>) = (out, s0, ev0) \<Longrightarrow>
     s0 = job_start E s \<and> ev0 = [] \<and> (\<exists>t. out = Return t)"
  by (auto simp: time_now_def job_start_def split: prod.splits)

lemma redis_callE:
  assumes "redis_call E c s = (out, s', evs)"
  obtains (ok) "out = Return ()" "evs = [Redis c]" "runner s' = runner s"
            "cleanup_functions s' = cleanup_functions s"
        | (failed) e where "out = Raise e" "evs = [RedisFailed c e]" "runner s' = runner s"
            "cleanup_functions s' = cleanup_functions s"
  using assms unfolding redis_call_def
  by (auto split: prod.splits sum.splits)

lemma time_nowE:
  assumes "time_now E s = (out, s', evs)"
  obtains t where "out = Return t" "evs = []" "runner s' = runner s"
            "cleanup_functions s' = cleanup_functions s"
  using assms unfolding time_now_def
  by (auto split: prod.splits)

lemma stderr_writeE:
  assumes "stderr_write l s = (out, s', evs)"
  obtains "out = Return ()" "evs = [Stderr l]" "s' = s"
  using assms unfolding stderr_write_def emit_def by auto

lemma ack_and_delete_cases:
  assumes "ack_and_delete E w mid s = (out, s', evs)"
  obtains (ok) "out = Return ()" "runner s' = runner s"
            "cleanup_functions s' = cleanup_functions s"
            "evs = [Redis (XACK (input_queue w) (input_queue w) mid), Redis (XDEL (input_queue w) mid)]"
        | (failed) e where "out = Raise e" "\<not> redis_ok evs"
  using assms unfolding ack_and_delete_def
  by (auto elim!: andthenE redis_callE simp: redis_ok_def)

lemma after_returnE:
  assumes "andthen (ack_and_delete E w mid) (\<lambda>_.
             andthen (time_now E) (\<lambda>end_time.
               andthen (redis_call E (XADD pq (end_time - start_time) len)) (\<lambda>_.
                 stderr_write (RunTime (end_time - start_time))))) s = (out, s', evs)"
  obtains (ok) d where "out = Return ()" "runner s' = runner s"
            "cleanup_functions s' = cleanup_functions s"
            "evs = [Redis (XACK (input_queue w) (input_queue w) mid),
                    Redis (XDEL (input_queue w) mid), Redis (XADD pq d len), Stderr (RunTime d)]"
        | (failed) e where "out = Raise e" "\<not> redis_ok evs"
  using assms
  by (auto elim!: andthenE ack_and_delete_cases redis_callE time_nowE stderr_writeE
      simp: redis_ok_def)

lemma after_raiseE:
  assumes "andthen (push_error E w q e) (\<lambda>_. ack_and_delete E w mid) s = (out, s', evs)"
  obtains (ok) "out = Return ()" "runner s' = runner s"
            "cleanup_functions s' = cleanup_functions s"
            "evs = [Stderr (PushingError q), Redis (RPUSH q (error_frame e)),
                    Redis (XACK (input_queue w) (input_queue w) mid),
                    Redis (XDEL (input_queue w) mid)]"
        | (failed) e' where "out = Raise e'" "\<not> redis_ok evs"
  using assms unfolding push_error_def
  by (auto elim!: andthenE ack_and_delete_cases redis_callE stderr_writeE
      simp: redis_ok_def)

lemma redis_ok_append [simp]: "redis_ok (a @ b) = (redis_ok a \<and> redis_ok b)"
  by (simp add: redis_ok_def)

lemma process_message_ok:
  assumes run: "process_message n E w mid q msg s = (out, s', evs)"
    and ok: "redis_ok evs"
    and hm: "handle_message n E w q msg (job_start E s) = (out_hm, s1, ev1)"
  shows "runner s' = runner s1 \<and>
    (case out_hm of
       Return u \<Rightarrow> out = Return () \<and>
         (\<exists>d c. evs = ev1 @ [Redis (XACK (input_queue w) (input_queue w) mid),
                             Redis (XDEL (input_queue w) mid),
                             Redis (XADD (predict_time_queue w) d (stats_queue_length w)),
                             Stderr (RunTime d)] @ c \<and> list_all cleanup_event c)
     | Raise e \<Rightarrow> out = Return () \<and>
         (\<exists>c. evs = ev1 @ [Stderr (PushingError q), Redis (RPUSH q (error_frame e)),
                           Redis (XACK (input_queue w) (input_queue w) mid),
                           Redis (XDEL (input_queue w) mid)] @ c \<and> list_all cleanup_event c)
     | OutOfFuel \<Rightarrow> out = OutOfFuel \<and> evs = ev1)"
proof -
  let ?body = "andthen (time_now E) (\<lambda>start_time.
               andthen (handle_message n E w q msg) (\<lambda>_.
                 andthen (ack_and_delete E w mid) (\<lambda>_.
                   andthen (time_now E) (\<lambda>end_time.
                     andthen (redis_call E
                        (XADD (predict_time_queue w) (end_time - start_time) (stats_queue_length w))) (\<lambda>_.
                       stderr_write (RunTime (end_time - start_time)))))))"
  let ?handler = "\<lambda>e. andthen (push_error E w q e) (\<lambda>_. ack_and_delete E w mid)"
  let ?s0 = "s\<lparr>cleanup_functions := []\<rparr>"
  from run have fin: "try_finally (try_except ?body ?handler)
      (\<lambda>s. run_cleanups E (cleanup_functions s) s) ?s0 = (out, s', evs)"
    by (simp add: process_message_def andthen_def reset_cleanups_def split: prod.splits)
  text \<open>The guarded part, in terms of the outcome of handle_message.\<close>
  have inner: "\<And>o2 s2 ev2. try_except ?body ?handler ?s0 = (o2, s2, ev2) \<Longrightarrow> redis_ok ev2 \<Longrightarrow>
      runner s2 = runner s1 \<and>
      (case out_hm of
         Return u \<Rightarrow> o2 = Return () \<and>
           (\<exists>d. ev2 = ev1 @ [Redis (XACK (input_queue w) (input_queue w) mid),
                             Redis (XDEL (input_queue w) mid),
                             Redis (XADD (predict_time_queue w) d (stats_queue_length w)),
                             Stderr (RunTime d)])
       | Raise e \<Rightarrow> o2 = Return () \<and>
           ev2 = ev1 @ [Stderr (PushingError q), Redis (RPUSH q (error_frame e)),
                        Redis (XACK (input_queue w) (input_queue w) mid),
                        Redis (XDEL (input_queue w) mid)]
       | OutOfFuel \<Rightarrow> o2 = OutOfFuel \<and> ev2 = ev1)"
  proof -
    fix o2 s2 ev2
    assume te: "try_except ?body ?handler ?s0 = (o2, s2, ev2)" and ok2: "redis_ok ev2"
    text \<open>What the body does.\<close>
    have body: "\<And>ob sb evb. ?body ?s0 = (ob, sb, evb) \<Longrightarrow>
        (case out_hm of
           Return u \<Rightarrow>
             (\<exists>d. ob = Return () \<and> runner sb = runner s1 \<and>
                   evb = ev1 @ [Redis (XACK (input_queue w) (input_queue w) mid),
                             Redis (XDEL (input_queue w) mid),
                             Redis (XADD (predict_time_queue w) d (stats_queue_length w)),
                             Stderr (RunTime d)])
             \<or> ((\<exists>e. ob = Raise e) \<and> \<not> redis_ok evb)
         | Raise e \<Rightarrow> ob = Raise e \<and> sb = s1 \<and> evb = ev1
         | OutOfFuel \<Rightarrow> ob = OutOfFuel \<and> sb = s1 \<and> evb = ev1)"
    proof -
      fix ob sb evb
      assume "?body ?s0 = (ob, sb, evb)"
      then show "?thesis ob sb evb"
      proof (cases rule: andthenE)
        case (ret t s0 ev0 evr)
        from time_now_job_start [OF ret(1)] have s0: "s0 = job_start E s" "ev0 = []" by simp_all
        from ret(2) show ?thesis
        proof (cases rule: andthenE)
          case (ret u sa eva evc)
          with hm s0 have h: "out_hm = Return u" "sa = s1" "eva = ev1" by simp_all
          from ret(2) show ?thesis
          proof (cases rule: after_returnE)
            case (ok d)
            with h ret(3) \<open>evb = ev0 @ evr\<close> s0 show ?thesis by auto
          next
            case (failed e)
            with h ret(3) \<open>evb = ev0 @ evr\<close> s0 show ?thesis by auto
          qed
        next
          case (exn e)
          with hm s0 \<open>evb = ev0 @ evr\<close> show ?thesis by auto
        next
          case fuel
          with hm s0 \<open>evb = ev0 @ evr\<close> show ?thesis by auto
        qed
      next
        case (exn e)
        from time_now_job_start [OF exn(1)] show ?thesis by auto
      next
        case fuel
        from time_now_job_start [OF fuel(1)] show ?thesis by auto
      qed
    qed
    from te show "?thesis o2 s2 ev2"
    proof (cases rule: try_exceptE)
      case (handled e sb evb evh)
      from body [OF handled(1)] have "(out_hm = Raise e \<and> sb = s1 \<and> evb = ev1) \<or> \<not> redis_ok evb"
        by (cases out_hm) auto
      with ok2 handled(3) have h: "out_hm = Raise e" "sb = s1" "evb = ev1" by auto
      from handled(2) show ?thesis
      proof (cases rule: after_raiseE)
        case ok
        with h handled(3) show ?thesis by simp
      next
        case (failed e')
        with ok2 handled(3) show ?thesis by simp
      qed
    next
      case (ret v)
      from body [OF ret(1)] ok2 ret(2) show ?thesis
        by (cases out_hm) auto
    next
      case fuel
      from body [OF fuel(1)] ok2 fuel(2) show ?thesis
        by (cases out_hm) auto
    qed
  qed
  from fin show ?thesis
  proof (cases rule: try_finallyE)
    case fuel
    from inner [OF fuel(1) ok] fuel(2) show ?thesis by (cases out_hm) auto
  next
    case (fin o1 s2 ev2 u ev3)
    from fin(5) ok have ok2: "redis_ok ev2" by simp
    from run_cleanups_result [OF fin(3)] have c: "list_all cleanup_event ev3" "runner s' = runner s2"
      by simp_all
    from inner [OF fin(1) ok2] fin(2,4,5) c show ?thesis by (cases out_hm) auto
  next
    case (cexn o1 s2 ev2 e ev3)
    from run_cleanups_result [OF cexn(3)] show ?thesis by simp
  next
    case (cfuel o1 s2 ev2 ev3)
    from run_cleanups_result [OF cfuel(3)] show ?thesis by simp
  qed
qed


lemma frames_on_cleanup: "list_all cleanup_event c \<Longrightarrow> frames_on q c = []"
proof (induction c)
  case Nil
  show ?case by simp
next
  case (Cons ev c)
  then show ?case by (cases ev rule: cleanup_event.cases) (auto simp: frames_on_Cons)
qed

lemma one_terminal_last_snoc:
  "all_processing fs \<Longrightarrow> terminal f \<Longrightarrow> one_terminal_last (fs @ [f])"
  by (simp add: one_terminal_last_def)

lemmas run_defs =
  process_message_def handle_message_def drive_def scalar_finish_def gen_finish_def
  push_failed_def push_def guarded_def interrupt_def armed_def with_timeout_def
  timeout_enter_def timeout_exit_def timeout_init_def handle_timeout_def
  make_input_def py_getitem_def lift_sum_def except_validation_def push_error_def
  error_frame_def encode_json_def response_def run_predictor_def append_cleanup_def
  reset_cleanups_def ack_and_delete_def redis_call_def stderr_write_def time_now_def
  world_call_def runner_call_def andthen_def try_except_def try_finally_def ret_def raise_def
  emit_def out_of_fuel_def
  demo_env_def demo_worker_def demo_state_def demo_message_def bad_message_def pop_def

section \<open>The claims\<close>

subsection \<open>C1: one terminal frame per job, the last one\<close>




subsection \<open>C2: the logs of a job\<close>

lemma logs_on_no_logs: "list_all (no_logs q) evs \<Longrightarrow> logs_on q evs = []"
proof (induction evs)
  case Nil
  show ?case by simp
next
  case (Cons ev evs)
  have "logs_on q (ev # evs) = logs_on q [ev] @ logs_on q evs"
    using logs_on_append [of q "[ev]" evs] by simp
  moreover from Cons.prems have "logs_on q [ev] = []"
    by (auto simp: no_logs_def logs_on_def frames_on_Cons split: option.splits)
  ultimately show ?case using Cons by simp
qed

lemma chain_after_silent:
  assumes "emits (no_logs q) m"
    and "\<And>v. spec (f v) (\<lambda>out evs. sorted_wrt prefix (logs_on q evs))"
  shows "spec (andthen m f) (\<lambda>out evs. sorted_wrt prefix (logs_on q evs))"
  by (rule spec_andthen [OF assms [unfolded emits_spec]]) (simp_all add: logs_on_no_logs)

lemma chain_then_silent:
  assumes "spec m (\<lambda>out evs. sorted_wrt prefix (logs_on q evs))"
    and "\<And>v. emits (no_logs q) (f v)"
  shows "spec (andthen m f) (\<lambda>out evs. sorted_wrt prefix (logs_on q evs))"
  by (rule spec_andthen [OF assms [unfolded emits_spec]]) (simp_all add: logs_on_no_logs)

lemma chain_try_except:
  assumes m: "spec m (\<lambda>out evs. sorted_wrt prefix (logs_on q evs))"
    and h: "\<And>e. emits (no_logs q) (h e)"
  shows "spec (try_except m h) (\<lambda>out evs. sorted_wrt prefix (logs_on q evs))"
proof (rule specI)
  fix s out s' evs
  assume "try_except m h s = (out, s', evs)"
  then show "sorted_wrt prefix (logs_on q evs)"
    by (cases rule: try_exceptE)
       (use specD [OF m] emitsD [OF h] in \<open>auto simp: logs_on_no_logs\<close>)
qed

lemma chain_try_finally:
  assumes m: "spec m (\<lambda>out evs. sorted_wrt prefix (logs_on q evs))"
    and c: "emits (no_logs q) c"
  shows "spec (try_finally m c) (\<lambda>out evs. sorted_wrt prefix (logs_on q evs))"
proof (rule specI)
  fix s out s' evs
  assume "try_finally m c s = (out, s', evs)"
  then show "sorted_wrt prefix (logs_on q evs)"
    by (cases rule: try_finallyE)
       (use specD [OF m] emitsD [OF c] in \<open>auto simp: logs_on_no_logs\<close>)
qed

lemma no_logs_simps [simp]:
  "no_logs q (Redis (XACK a b c))" "no_logs q (Redis (XDEL a b))" "no_logs q (Redis (XADD a d l))"
  "no_logs q (RedisFailed cmd e)" "no_logs q (Stderr line)" "no_logs q (CleanupCall i)"
  "no_logs q (Redis (RPUSH k (error_frame e)))"
  by (simp_all add: no_logs_def)

lemma emits_ack_and_delete: "emits (no_logs q) (ack_and_delete E w mid)"
  unfolding ack_and_delete_def by (intro emits_andthen emits_redis_call) simp_all

lemma emits_push_error_silent: "emits (no_logs q) (push_error E w k e)"
  unfolding push_error_def stderr_write_def
  by (intro emits_andthen emits_redis_call) simp_all

lemma emits_run_cleanups: "emits (no_logs q) (\<lambda>s. run_cleanups E (cleanup_functions s) s)"
proof (rule emitsI)
  fix s out s' evs
  assume "run_cleanups E (cleanup_functions s) s = (out, s', evs)"
  from run_cleanups_result [OF this] have "list_all cleanup_event evs" by simp
  then show "list_all (no_logs q) evs"
  proof (induction evs)
    case Nil
    show ?case by simp
  next
    case (Cons ev evs)
    then show ?case by (cases ev rule: cleanup_event.cases) simp_all
  qed
qed

lemma process_message_chain:
  "spec (process_message n E w mid q msg) (\<lambda>out evs. sorted_wrt prefix (logs_on q evs))"
  unfolding process_message_def
  apply (rule chain_after_silent)
   apply (simp add: emits_def reset_cleanups_def)
  apply (rule chain_try_finally [OF _ emits_run_cleanups])
  apply (rule chain_try_except)
   apply (rule chain_after_silent)
    apply simp
   apply (rule chain_then_silent)
    apply (rule spec_weaken [OF handle_message_spec])
    apply (simp add: job_post_def)
   apply (intro emits_andthen emits_ack_and_delete emits_redis_call)
      apply (simp_all add: stderr_write_def)
  apply (intro emits_andthen emits_push_error_silent emits_ack_and_delete)
  done




subsection \<open>C3: errors are reported and acked, malformed messages are only logged\<close>

lemma str_int_reclaim: "str_int 600000 = ''600000''"
  by (simp add: str_int_def str_nat.simps)

lemmas recv_defs =
  iteration_def receive_message_def xautoclaim_def xreadgroup_def autoclaim_cmd_def
  readgroup_cmd_def list_item_def bytes_decode_def str_int_reclaim demo_payload_def
  malformed_state_def

lemma is_xack_cleanup: "list_all cleanup_event c \<Longrightarrow> list_all (\<lambda>ev. \<not> is_xack ev) c"
proof (induction c)
  case Nil
  show ?case by simp
next
  case (Cons ev c)
  then show ?case by (cases ev rule: cleanup_event.cases) simp_all
qed

lemma emits_xautoclaim: "P (Redis c) \<Longrightarrow> (\<And>e. P (RedisFailed c e)) \<Longrightarrow> emits P (xautoclaim E c)"
  by (simp add: emits_def xautoclaim_def split: prod.splits sum.splits)

lemma emits_xreadgroup: "P (Redis c) \<Longrightarrow> (\<And>e. P (RedisFailed c e)) \<Longrightarrow> emits P (xreadgroup E c)"
  by (simp add: emits_def xreadgroup_def split: prod.splits sum.splits)

lemma emits_list_item [simp]: "emits P (list_item xs i)"
  by (simp add: list_item_def)

lemma emits_bytes_decode [simp]: "emits P (bytes_decode b)"
  by (simp add: bytes_decode_def split: bytes.splits)

lemma emits_receive_message:
  "emits (\<lambda>ev. \<not> is_xack ev \<and> \<not> xadd_to stream ev \<and> pushed q ev = None) (receive_message E w)"
  unfolding receive_message_def
  by (auto intro!: emits_andthen emits_xautoclaim emits_xreadgroup
      simp: autoclaim_cmd_def readgroup_cmd_def
      split: list.split option.split prod.split)

lemma andthen_raise: "andthen (raise e) f s = (Raise e, s, [])"
  by (simp add: andthen_def raise_def)

lemma andthen_ret: "andthen (ret v) f s = f v s"
  by (simp add: andthen_def ret_def split: prod.splits)

lemma andthen_stderr_write:
  "f () s = (out, s', evs) \<Longrightarrow> andthen (stderr_write l) f s = (out, s', Stderr l # evs)"
  by (simp add: andthen_def stderr_write_def emit_def)

lemma iteration_cases:
  assumes recv: "receive_message E w s = (Return (Some (mid, payload)), s1, ev1)"
    and it: "iteration n E w s = (out, s', evs)"
  shows "case json_loads E payload of
           Inl e \<Rightarrow> out = Return () \<and> s' = s1 \<and> evs = ev1 @ [Stderr (FailedToHandle e)]
         | Inr m \<Rightarrow>
            (case py_getitem m ''response_queue'' of
               Inl e \<Rightarrow> out = Return () \<and> s' = s1 \<and> evs = ev1 @ [Stderr (FailedToHandle e)]
             | Inr q \<Rightarrow>
                 (\<exists>o2 s2 ev2. process_message n E w mid q m s1 = (o2, s2, ev2) \<and>
                    (case o2 of
                       Raise e \<Rightarrow> out = Return () \<and>
                         evs = ev1 @ Stderr (ReceivedOn (input_queue w)) # ev2 @ [Stderr (FailedToHandle e)]
                     | _ \<Rightarrow> out = o2 \<and> evs = ev1 @ Stderr (ReceivedOn (input_queue w)) # ev2)))"
proof -
  define rest where "rest = (\<lambda>received. case received of
            None \<Rightarrow> ret ()
          | Some (message_id, message_json) \<Rightarrow>
              andthen (lift_sum (json_loads E message_json)) (\<lambda>message.
                andthen (lift_sum (py_getitem message ''response_queue'')) (\<lambda>response_queue.
                  andthen (stderr_write (ReceivedOn (input_queue w))) (\<lambda>_.
                    process_message n E w message_id response_queue message))))"
  have it': "try_except (andthen (receive_message E w) rest)
               (\<lambda>e. stderr_write (FailedToHandle e)) s = (out, s', evs)"
    using it unfolding iteration_def rest_def .
  obtain o3 s3 ev3 where r3: "rest (Some (mid, payload)) s1 = (o3, s3, ev3)"
    by (metis prod_cases3)
  have inner: "andthen (receive_message E w) rest s = (o3, s3, ev1 @ ev3)"
    using recv r3 by (simp add: andthen_def)
  have outer: "(case o3 of Raise e \<Rightarrow> out = Return () \<and> s' = s3 \<and> evs = ev1 @ ev3 @ [Stderr (FailedToHandle e)]
      | _ \<Rightarrow> out = o3 \<and> s' = s3 \<and> evs = ev1 @ ev3)"
    using it'
  proof (cases rule: try_exceptE)
    case (handled e sa eva evb)
    with inner have "o3 = Raise e" "sa = s3" "eva = ev1 @ ev3" by simp_all
    moreover from handled(2) have "out = Return ()" "s' = sa" "evb = [Stderr (FailedToHandle e)]"
      by (auto elim: stderr_writeE)
    ultimately show ?thesis using handled(3) by simp
  next
    case (ret v)
    with inner show ?thesis by auto
  next
    case fuel
    with inner show ?thesis by auto
  qed
  have r3': "andthen (lift_sum (json_loads E payload)) (\<lambda>message.
                andthen (lift_sum (py_getitem message ''response_queue'')) (\<lambda>response_queue.
                  andthen (stderr_write (ReceivedOn (input_queue w))) (\<lambda>_.
                    process_message n E w mid response_queue message))) s1 = (o3, s3, ev3)"
    using r3 unfolding rest_def by simp
  show ?thesis
  proof (cases "json_loads E payload")
    case (Inl e)
    with r3' have "o3 = Raise e" "s3 = s1" "ev3 = []"
      by (simp_all add: lift_sum_def andthen_raise)
    with outer Inl show ?thesis by simp
  next
    case (Inr m)
    note m = this
    from r3' m have r4: "andthen (lift_sum (py_getitem m ''response_queue'')) (\<lambda>response_queue.
                  andthen (stderr_write (ReceivedOn (input_queue w))) (\<lambda>_.
                    process_message n E w mid response_queue m)) s1 = (o3, s3, ev3)"
      by (simp add: lift_sum_def andthen_ret)
    show ?thesis
    proof (cases "py_getitem m ''response_queue''")
      case (Inl e)
      with r4 have "o3 = Raise e" "s3 = s1" "ev3 = []"
        by (simp_all add: lift_sum_def andthen_raise)
      with outer m Inl show ?thesis by simp
    next
      case (Inr q)
      obtain o2 s2 ev2 where pm: "process_message n E w mid q m s1 = (o2, s2, ev2)"
        by (metis prod_cases3)
      from r4 Inr have "andthen (stderr_write (ReceivedOn (input_queue w))) (\<lambda>_.
                    process_message n E w mid q m) s1 = (o3, s3, ev3)"
        by (simp add: lift_sum_def andthen_ret)
      with andthen_stderr_write [of "\<lambda>_. process_message n E w mid q m", OF pm]
      have "o3 = o2" "s3 = s2" "ev3 = Stderr (ReceivedOn (input_queue w)) # ev2"
        by simp_all
      with outer m Inr pm show ?thesis by (cases o2) simp_all
    qed
  qed
qed

lemma emits_push_failed_status:
  "emits (\<lambda>ev. case pushed q ev of None \<Rightarrow> True | Some f \<Rightarrow> frame_status f = FAILED)
     (push_failed E t q ov lg)"
  unfolding push_failed_def push_def guarded_def
  by (intro emits_andthen emits_interrupt emits_redis_call) (simp_all add: response_def)



subsection \<open>C4: a timeout of zero seconds\<close>

lemma validated_input:
  assumes "make_input E msg s = (Return obj, s1, ev1)"
  shows "except_validation (andthen (make_input E msg) (\<lambda>input_obj. ret (Some input_obj))) h s
           = (Return (Some obj), s1, [])"
proof -
  from assms have "ev1 = []" by (rule make_inputE)
  with assms show ?thesis
    by (simp add: except_validation_def andthen_def ret_def)
qed

lemma handle_message_timeout_zero:
  assumes pt: "predict_timeout w = Some 0"
    and valid: "make_input E msg s = (Return obj, s1, ev1)"
  shows "handle_message n E w q msg s =
     (Raise (TimeoutError ''Prediction timed out''),
      s1\<lparr>cleanup_functions := cleanup_functions s1 @ [obj], world := snd (time_time E (world s1))\<rparr>,
      [])"
proof -
  have enter: "\<And>body s. with_timeout E (timeout_init (Some 0) None ''Prediction timed out'') body s
      = (Raise (TimeoutError ''Prediction timed out''), s, [])"
    by (simp add: with_timeout_def timeout_enter_def timeout_init_def handle_timeout_def
        andthen_raise)
  show ?thesis
    unfolding handle_message_def pt
    by (simp add: andthen_def [of "except_validation _ _"] validated_input [OF valid]
        andthen_def [of "append_cleanup _"] append_cleanup_def
        andthen_def [of "time_now _"] time_now_def enter split: prod.splits)
qed

text \<open>
  Claim C4 says that with \<^verbatim>\<open>predict_timeout = 0\<close> entering the timeout scope raises at
  once, before the predictor is run or polled, and the job ends with a single terminal
  failed frame with the error \<^verbatim>\<open>Prediction timed out\<close>, after which the message is acked.
  The scope is entered when the input validates; the frame is pushed and the message acked
  when Redis accepts the commands. Then \<^verbatim>\<open>handle_message\<close> raises the timeout whatever the
  fuel, the runner is left as it was, and the events of the job are the push of that one
  frame, \<^verbatim>\<open>XACK\<close>, \<^verbatim>\<open>XDEL\<close> and the cleanups.
\<close>

theorem timeout_zero_fails_immediately:
  assumes pt: "predict_timeout w = Some 0"
    and valid: "make_input E msg (job_start E s) = (Return obj, s1, ev1)"
    and run: "process_message n E w mid q msg s = (out, s', evs)"
    and ok: "redis_ok evs"
  shows "fst (handle_message n E w q msg (job_start E s))
           = Raise (TimeoutError ''Prediction timed out'') \<and>
         out = Return () \<and> runner s' = runner s \<and> \<not> list_ex is_run evs \<and>
         frames_on q evs = [error_frame (TimeoutError ''Prediction timed out'')] \<and>
         take 4 evs = [Stderr (PushingError q),
                       Redis (RPUSH q (error_frame (TimeoutError ''Prediction timed out''))),
                       Redis (XACK (input_queue w) (input_queue w) mid),
                       Redis (XDEL (input_queue w) mid)] \<and>
         list_all cleanup_event (drop 4 evs)"
proof -
  note hm = handle_message_timeout_zero [OF pt valid, of n q]
  from valid have r1: "runner s1 = runner (job_start E s)" by (rule make_inputE)
  from process_message_ok [OF run ok hm] obtain c where
    out: "out = Return ()" and r: "runner s' = runner s1"
    and evs: "evs = [Stderr (PushingError q),
                     Redis (RPUSH q (error_frame (TimeoutError ''Prediction timed out''))),
                     Redis (XACK (input_queue w) (input_queue w) mid),
                     Redis (XDEL (input_queue w) mid)] @ c"
    and c: "list_all cleanup_event c"
    by auto
  have nr: "\<not> list_ex is_run c"
    using c
  proof (induction c)
    case Nil
    show ?case by simp
  next
    case (Cons ev c)
    then show ?case by (cases ev rule: cleanup_event.cases) simp_all
  qed
  have "frames_on q evs = [error_frame (TimeoutError ''Prediction timed out'')]"
    unfolding evs by (simp add: frames_on_Cons frames_on_cleanup [OF c])
  with hm out r r1 evs c nr show ?thesis
    by (simp add: job_start_def)
qed

text \<open>The job of the concrete environment with a timeout of zero seconds.\<close>

theorem timeout_zero_fails_immediately_witness:
  "fst (demo_job (Some 0) demo_message [True] [''starting''] [Plain (JStr ''it worked!'')] [])
     = Return () \<and>
   snd (snd (demo_job (Some 0) demo_message [True] [''starting''] [Plain (JStr ''it worked!'')] []))
     = [Stderr (PushingError (JStr ''replies'')),
        Redis (RPUSH (JStr ''replies'') (error_frame (TimeoutError ''Prediction timed out''))),
        Redis (XACK ''queue'' ''queue'' ''1-0''), Redis (XDEL ''queue'' ''1-0''),
        CleanupCall (InputObj [(''sleep_time'', JNum 5)])] \<and>
   frames_on (JStr ''replies'')
     (snd (snd (demo_job (Some 0) demo_message [True] [''starting'']
        [Plain (JStr ''it worked!'')] [])))
     = [error_frame (TimeoutError ''Prediction timed out'')]"
proof -
  let ?s = "demo_state [True] [''starting''] [Plain (JStr ''it worked!'')] []"
  let ?w = "demo_worker (Some 0)"
  let ?R = "demo_job (Some 0) demo_message [True] [''starting''] [Plain (JStr ''it worked!'')] []"
  let ?m = "make_input demo_env demo_message (job_start demo_env ?s)"
  have pt: "predict_timeout ?w = Some 0" by (simp add: demo_worker_def)
  have valid: "?m = (Return (InputObj [(''sleep_time'', JNum 5)]), fst (snd ?m), snd (snd ?m))"
    by (simp add: run_defs job_start_def)
  have run: "process_message 3 demo_env ?w ''1-0'' (JStr ''replies'') demo_message ?s
     = (fst ?R, fst (snd ?R), snd (snd ?R))"
    by (simp add: demo_job_def)
  have evs: "snd (snd ?R)
     = [Stderr (PushingError (JStr ''replies'')),
        Redis (RPUSH (JStr ''replies'') (error_frame (TimeoutError ''Prediction timed out''))),
        Redis (XACK ''queue'' ''queue'' ''1-0''), Redis (XDEL ''queue'' ''1-0''),
        CleanupCall (InputObj [(''sleep_time'', JNum 5)])]"
    by (simp add: demo_job_def run_defs numeral_3_eq_3)
  have ok: "redis_ok (snd (snd ?R))" unfolding evs by (simp add: redis_ok_def)
  from timeout_zero_fails_immediately [OF pt valid run ok]
  have "fst ?R = Return () \<and>
    frames_on (JStr ''replies'') (snd (snd ?R)) = [error_frame (TimeoutError ''Prediction timed out'')]"
    by blast
  with evs show ?thesis by blast
qed

subsection \<open>C10: an input that does not validate\<close>

lemma rejected_input:
  assumes "make_input E msg s = (Raise (ValidationError v), s1, ev1)"
  shows "except_validation (andthen (make_input E msg) (\<lambda>input_obj. ret (Some input_obj))) h s
           = h (ValidationError v) s1"
proof -
  from assms have "ev1 = []" by (rule make_inputE)
  with assms show ?thesis
    by (simp add: except_validation_def andthen_def split: prod.splits)
qed

text \<open>
  Claim C10 says that when validation rejects the input with a \<^verbatim>\<open>ValidationError\<close>,
  \<^verbatim>\<open>handle_message\<close> pushes a failed frame and returns without running the predictor and
  without registering a cleanup. Whatever the fuel, the runner and the cleanup list are
  unchanged and there is no run; the events are the traceback, the line of \<^verbatim>\<open>push_error\<close>
  and the push of the failed frame with the text of the error, after which
  \<^verbatim>\<open>handle_message\<close> returns. Only when that \<^verbatim>\<open>RPUSH\<close> itself raises does \<^verbatim>\<open>handle_message\<close>
  raise instead of returning.
\<close>

theorem invalid_input_is_reported:
  assumes invalid: "make_input E msg s = (Raise (ValidationError v), s1, ev1)"
    and hm: "handle_message n E w q msg s = (out, s', evs)"
  shows "runner s' = runner s \<and> cleanup_functions s' = cleanup_functions s \<and>
         \<not> list_ex is_run evs \<and>
         (case out of
            Return u \<Rightarrow>
              evs = [Stderr (Traceback (ValidationError v)), Stderr (PushingError q),
                     Redis (RPUSH q (error_frame (ValidationError v)))]
          | Raise e \<Rightarrow>
              evs = [Stderr (Traceback (ValidationError v)), Stderr (PushingError q),
                     RedisFailed (RPUSH q (error_frame (ValidationError v))) e]
          | OutOfFuel \<Rightarrow> False)"
proof -
  from invalid have st: "runner s1 = runner s" "cleanup_functions s1 = cleanup_functions s"
    by (rule make_inputE; simp)+
  obtain o2 s2 ev2 where pe: "push_error E w q (ValidationError v) s1 = (o2, s2, ev2)"
    by (metis prod_cases3)
  note st2 = push_error_state [OF pe]
  have first: "except_validation (andthen (make_input E msg) (\<lambda>input_obj. ret (Some input_obj)))
          (\<lambda>e. andthen (stderr_write (Traceback e)) (\<lambda>_.
                 andthen (push_error E w q e) (\<lambda>_. ret None))) s
        = (case o2 of Return u \<Rightarrow> Return None | Raise e \<Rightarrow> Raise e | OutOfFuel \<Rightarrow> OutOfFuel,
           s2, Stderr (Traceback (ValidationError v)) # ev2)"
    unfolding rejected_input [OF invalid]
    by (rule andthen_stderr_write) (simp add: andthen_def pe ret_def split: outcome.splits)
  from pe show ?thesis
  proof (cases rule: push_errorE)
    case ok
    with first hm st st2 show ?thesis
      by (auto simp: handle_message_def andthen_def [of "except_validation _ _"] ret_def)
  next
    case (failed e')
    with first hm st st2 show ?thesis
      by (auto simp: handle_message_def andthen_def [of "except_validation _ _"])
  qed
qed

text \<open>The input \<^verbatim>\<open>{"sleep_time": "not a number"}\<close> on the concrete environment.\<close>

theorem invalid_input_is_reported_witness:
  "handle_message 3 demo_env (demo_worker None) (JStr ''replies'') bad_message
     (demo_state [True] [''starting''] [] []) =
   (Return (), demo_state [True] [''starting''] [] [],
    [Stderr (Traceback (ValidationError ''sleep_time: value is not a valid float'')),
     Stderr (PushingError (JStr ''replies'')),
     Redis (RPUSH (JStr ''replies'')
       (error_frame (ValidationError ''sleep_time: value is not a valid float'')))])"
proof -
  let ?s = "demo_state [True] [''starting''] [] []"
  let ?h = "handle_message 3 demo_env (demo_worker None) (JStr ''replies'') bad_message ?s"
  have invalid: "make_input demo_env bad_message ?s =
     (Raise (ValidationError ''sleep_time: value is not a valid float''), ?s, [])"
    by (simp add: run_defs)
  have out: "fst ?h = Return ()" and st: "fst (snd ?h) = ?s"
    by (simp_all add: run_defs)
  have hm: "?h = (fst ?h, fst (snd ?h), snd (snd ?h))" by simp
  from invalid_input_is_reported [OF invalid hm] out
  have "snd (snd ?h) =
    [Stderr (Traceback (ValidationError ''sleep_time: value is not a valid float'')),
     Stderr (PushingError (JStr ''replies'')),
     Redis (RPUSH (JStr ''replies'')
       (error_frame (ValidationError ''sleep_time: value is not a valid float'')))]"
    by simp
  with out st show ?thesis by (metis prod.collapse)
qed

subsection \<open>C6: one output value in scalar mode\<close>

lemma interrupt_runner: "interrupt E t s = (out, s1, evs) \<Longrightarrow> runner s1 = runner s"
  by (auto simp: interrupt_def split: if_splits prod.splits bool.splits)

lemma guarded_runner_callE:
  assumes "guarded E t (runner_call f) s = (out, s', evs)"
  obtains (ok) "out = Return (fst (f (runner s)))" "evs = []"
        | (alarm) "out = Raise (TimeoutError (error_message t))" "evs = [Sigalrm]"
  using assms unfolding guarded_def
proof (cases rule: andthenE)
  case (ret v s1 ev1 ev2)
  from ret(1) have "ev1 = []" by (rule interruptE) auto
  moreover from ret(2) interrupt_runner [OF ret(1)]
  have "out = Return (fst (f (runner s)))" "ev2 = []"
    by (auto simp: runner_call_def split: prod.splits)
  ultimately show ?thesis using ret(3) that(1) by simp
next
  case (exn e)
  from exn(1) show ?thesis by (rule interruptE) (use exn that(2) in auto)
next
  case fuel
  from fuel(1) show ?thesis by (rule interruptE) auto
qed

lemma guarded_encodeE:
  assumes "guarded E t (encode_json E w obj) s = (out, s', evs)"
  obtains (ok) v where "out = Return v" "evs = []"
        | (failed) e where "out = Raise e" "frameless q evs"
  using assms unfolding guarded_def
proof (cases rule: andthenE)
  case (ret v s1 ev1 ev2)
  from ret(1) have "ev1 = []" by (rule interruptE) auto
  with ret that show ?thesis
    by (auto simp: encode_json_def world_call_def split: prod.splits sum.splits)
next
  case (exn e)
  have "frameless q [Sigalrm]" by (simp add: frameless_single)
  with exn(1) show ?thesis
    by (elim interruptE) (use exn that(2) in auto)
next
  case fuel
  from fuel(1) show ?thesis by (rule interruptE) auto
qed

lemma scalar_finish_returns:
  assumes "scalar_finish E t w q lg s = (Return u, s', evs)"
  shows "length (fst (read_output E (runner s))) = 1 \<and>
         (\<exists>v l. evs = [Redis (RPUSH q (response SUCCEEDED (Scalar v) l None))])"
  using assms unfolding scalar_finish_def
proof (cases rule: andthenE)
  case (ret xs s1 ev1 ev2)
  from ret(1) have xs: "xs = fst (read_output E (runner s))" "ev1 = []"
    by (rule guarded_runner_callE; simp)+
  show ?thesis
  proof (cases "length xs \<noteq> 1")
    case True
    with ret(2) show ?thesis by (simp add: raise_def)
  next
    case False
    with ret(2) have "andthen (guarded E t (encode_json E w (hd xs))) (\<lambda>encoded.
         andthen (guarded E t (runner_call (read_logs E))) (\<lambda>new_logs.
           push E t q (response SUCCEEDED (Scalar encoded) (lg @ new_logs) None))) s1
         = (Return u, s', ev2)"
      by simp
    then have "\<exists>v l. ev2 = [Redis (RPUSH q (response SUCCEEDED (Scalar v) l None))]"
    proof (cases rule: andthenE)
      case (ret v s2 ev3 ev4)
      from ret(1) have "ev3 = []" by (rule guarded_encodeE [where q = q]) auto
      from ret(2) have "\<exists>l. ev4 = [Redis (RPUSH q (response SUCCEEDED (Scalar v) l None))]"
      proof (cases rule: andthenE)
        case (ret nl s3 ev5 ev6)
        from ret(1) have "ev5 = []" by (rule guarded_runner_callE) auto
        moreover from ret(2) have
          "ev6 = [Redis (RPUSH q (response SUCCEEDED (Scalar v) (lg @ nl) None))]"
          by (rule pushE) auto
        ultimately show ?thesis using ret(3) by auto
      qed simp_all
      with \<open>ev3 = []\<close> ret(3) show ?thesis by auto
    qed simp_all
    with False xs ret(3) show ?thesis by simp
  qed
qed simp_all

lemma scalar_finish_asserts:
  assumes quiet_now: "fst (interrupt E t s) = Return ()"
    and count: "length (fst (read_output E (runner s))) \<noteq> 1"
  shows "fst (scalar_finish E t w q lg s) = Raise AssertionError \<and>
         snd (snd (scalar_finish E t w q lg s)) = []"
proof -
  obtain s1 ev1 where i: "interrupt E t s = (Return (), s1, ev1)"
    using quiet_now by (metis prod.collapse)
  then have ev1: "ev1 = []" by (rule interruptE) auto
  from interrupt_runner [OF i] have r: "runner s1 = runner s" .
  have "guarded E t (runner_call (read_output E)) s =
     (Return (fst (read_output E (runner s))), s1\<lparr>runner := snd (read_output E (runner s))\<rparr>, [])"
    by (simp add: guarded_def andthen_def i ev1 runner_call_def r split: prod.splits)
  with count show ?thesis
    by (simp add: scalar_finish_def andthen_def raise_def)
qed

lemma no_success_snoc:
  assumes "all_processing fs"
  shows "list_all (\<lambda>f. frame_status f \<noteq> SUCCEEDED) (fs @ [error_frame e])"
  using assms by (auto simp: all_processing_def list_all_iff error_frame_def)



subsection \<open>C5: the timing streams\<close>

lemma xadds_Nil [simp]: "xadds stream [] = 0"
  by (simp add: xadds_def)

lemma xadds_append [simp]: "xadds stream (a @ b) = xadds stream a + xadds stream b"
  by (simp add: xadds_def)

lemma xadds_Cons: "xadds stream (ev # evs) = (if xadd_to stream ev then 1 else 0) + xadds stream evs"
  by (simp add: xadds_def)

lemma xadds_none: "list_all (\<lambda>ev. \<not> xadd_to stream ev) evs \<Longrightarrow> xadds stream evs = 0"
  by (induction evs) (simp_all add: xadds_Cons)

lemma job_event_no_xadd: "job_event q ev \<Longrightarrow> \<not> xadd_to stream ev"
  by (cases "(q, ev)" rule: job_event.cases) simp_all

lemma cleanup_event_no_xadd: "cleanup_event ev \<Longrightarrow> \<not> xadd_to stream ev"
  by (cases ev rule: cleanup_event.cases) simp_all

lemma emits_handle_message_no_xadd:
  "emits (\<lambda>ev. \<not> xadd_to stream ev) (handle_message n E w q msg)"
  by (rule emits_mono [OF emits_handle_message]) (rule job_event_no_xadd)

lemma emits_run_cleanups_no_xadd:
  "emits (\<lambda>ev. \<not> xadd_to stream ev) (\<lambda>s. run_cleanups E (cleanup_functions s) s)"
proof (rule emitsI)
  fix s out s' evs
  assume "run_cleanups E (cleanup_functions s) s = (out, s', evs)"
  from run_cleanups_result [OF this] show "list_all (\<lambda>ev. \<not> xadd_to stream ev) evs"
    by (auto simp: list_all_iff dest: cleanup_event_no_xadd)
qed

lemma emits_reset_cleanups [simp]: "emits P reset_cleanups"
  by (simp add: emits_def reset_cleanups_def)

lemma emits_process_message_no_xadd:
  assumes "predict_time_queue w \<noteq> stream"
  shows "emits (\<lambda>ev. \<not> xadd_to stream ev) (process_message n E w mid q msg)"
  unfolding process_message_def ack_and_delete_def push_error_def stderr_write_def
  by (intro emits_andthen emits_try_finally emits_try_except emits_handle_message_no_xadd
      emits_run_cleanups_no_xadd emits_redis_call)
     (simp_all add: assms)

lemma emits_lift_sum [simp]: "emits P (lift_sum x)"
  by (simp add: lift_sum_def split: sum.splits)

lemma emits_iteration_no_xadd:
  assumes "predict_time_queue w \<noteq> stream"
  shows "emits (\<lambda>ev. \<not> xadd_to stream ev) (iteration n E w)"
proof -
  have rm: "emits (\<lambda>ev. \<not> xadd_to stream ev) (receive_message E w)"
    by (rule emits_mono [OF emits_receive_message [where stream = stream and q = JNull]]) simp
  show ?thesis
    unfolding iteration_def stderr_write_def
    apply (rule emits_try_except)
     apply (rule emits_andthen [OF rm])
     apply (auto intro!: emits_andthen emits_process_message_no_xadd [OF assms]
        split: option.split prod.split)
    done
qed

lemma emits_deliver_sigterm: "emits (\<lambda>ev. \<not> xadd_to stream ev) (deliver_sigterm E)"
  by (simp add: emits_def deliver_sigterm_def signal_exit_def split: prod.splits bool.splits)

lemma emits_start_loop_no_xadd:
  assumes "predict_time_queue w \<noteq> stream"
  shows "emits (\<lambda>ev. \<not> xadd_to stream ev) (start_loop n E w)"
proof (induction n)
  case 0
  show ?case by simp
next
  case (Suc n)
  have body: "\<And>u. emits (\<lambda>ev. \<not> xadd_to stream ev)
      (\<lambda>s. if should_exit s then ret () s else andthen (iteration n E w) (\<lambda>_. start_loop n E w) s)"
  proof (rule emitsI)
    fix u :: unit and s :: "('a, 'b) state" and out s' evs
    assume a: "(if should_exit s then ret () s
                else andthen (iteration n E w) (\<lambda>_. start_loop n E w) s) = (out, s', evs)"
    show "list_all (\<lambda>ev. \<not> xadd_to stream ev) evs"
    proof (cases "should_exit s")
      case True
      with a show ?thesis by (simp add: ret_def)
    next
      case False
      with a have "andthen (iteration n E w) (\<lambda>_. start_loop n E w) s = (out, s', evs)" by simp
      from emitsD [OF emits_andthen [OF emits_iteration_no_xadd [OF assms] Suc] this]
      show ?thesis .
    qed
  qed
  show ?case
    by (simp only: start_loop.simps) (rule emits_andthen [OF emits_deliver_sigterm body])
qed

lemma setup_queue_differs: "initialised w \<Longrightarrow> predict_time_queue w \<noteq> setup_time_queue w"
  by (simp add: initialised_def)

lemma start_setup_entry:
  assumes init: "initialised w"
    and run: "start n E w s = (out, s', evs)"
    and ok: "redis_ok evs"
  shows "xadds (setup_time_queue w) evs = 1"
  using run unfolding start_def
proof (cases rule: andthenE)
  case (ret t0 s1 ev1 ev2)
  from ret(1) have ev1: "ev1 = []" by (rule time_nowE)
  from ret(2) show ?thesis
  proof (cases rule: andthenE)
    case (ret u s2 ev3 ev4)
    from ret(1) have ev3: "ev3 = [RunnerSetup]" by (simp add: run_setup_def)
    from ret(2) show ?thesis
    proof (cases rule: andthenE)
      case (ret t1 s3 ev5 ev6)
      from ret(1) have ev5: "ev5 = []" by (rule time_nowE)
      from ret(2) show ?thesis
      proof (cases rule: andthenE)
        case (ret u2 s4 ev7 ev8)
        from ret(1) have ev7: "ev7 = [Redis (XADD (setup_time_queue w) (t1 - t0) (stats_queue_length w))]"
          by (rule redis_callE) (use ok \<open>evs = ev1 @ ev2\<close> \<open>ev2 = ev3 @ ev4\<close>
              \<open>ev4 = ev5 @ ev6\<close> \<open>ev6 = ev7 @ ev8\<close> in \<open>auto simp: redis_ok_def\<close>)
        have loop: "emits (\<lambda>ev. \<not> xadd_to (setup_time_queue w) ev)
           (andthen (stderr_write (SetupTime (t1 - t0))) (\<lambda>_.
              andthen (stderr_write (WaitingFor (input_queue w))) (\<lambda>_. start_loop n E w)))"
          unfolding stderr_write_def
          by (intro emits_andthen emits_start_loop_no_xadd setup_queue_differs [OF init]) simp_all
        from emitsD [OF loop ret(2)] have "xadds (setup_time_queue w) ev8 = 0"
          by (rule xadds_none)
        with ev1 ev3 ev5 ev7 \<open>evs = ev1 @ ev2\<close> \<open>ev2 = ev3 @ ev4\<close>
              \<open>ev4 = ev5 @ ev6\<close> \<open>ev6 = ev7 @ ev8\<close>
        show ?thesis by (simp add: xadds_Cons)
      next
        case (exn e)
        from exn(1) have "\<not> redis_ok ev6"
          by (rule redis_callE) (auto simp: redis_ok_def)
        with ok \<open>evs = ev1 @ ev2\<close> \<open>ev2 = ev3 @ ev4\<close> \<open>ev4 = ev5 @ ev6\<close>
        show ?thesis by simp
      next
        case fuel
        from fuel(1) show ?thesis by (rule redis_callE) auto
      qed
    next
      case (exn e)
      from exn(1) show ?thesis by (rule time_nowE) auto
    next
      case fuel
      from fuel(1) show ?thesis by (rule time_nowE) auto
    qed
  next
    case (exn e)
    then show ?thesis by (simp add: run_setup_def)
  next
    case fuel
    then show ?thesis by (simp add: run_setup_def)
  qed
next
  case (exn e)
  from exn(1) show ?thesis by (rule time_nowE) auto
next
  case fuel
  from fuel(1) show ?thesis by (rule time_nowE) auto
qed

lemma job_run_time_entry:
  assumes run: "process_message n E w mid q msg s = (out, s', evs)"
    and ok: "redis_ok evs"
  shows "xadds (predict_time_queue w) evs =
           (case fst (handle_message n E w q msg (job_start E s)) of Return u \<Rightarrow> 1 | _ \<Rightarrow> 0)"
proof -
  obtain out_hm s1 ev1 where hm: "handle_message n E w q msg (job_start E s) = (out_hm, s1, ev1)"
    by (metis prod_cases3)
  from emitsD [OF emits_handle_message_no_xadd hm]
  have z: "xadds (predict_time_queue w) ev1 = 0" by (rule xadds_none)
  have zc: "\<And>c. list_all cleanup_event c \<Longrightarrow> xadds (predict_time_queue w) c = 0"
    by (rule xadds_none) (auto simp: list_all_iff dest: cleanup_event_no_xadd)
  from process_message_ok [OF run ok hm] z zc show ?thesis
    by (cases out_hm) (auto simp: hm xadds_Cons)
qed


lemmas start_defs = start_def deliver_sigterm_def signal_exit_def run_setup_def



subsection \<open>C7 and C9: receive_message\<close>

lemma silent_events: "emits (\<lambda>ev. False) m \<Longrightarrow> m s = (out, s', evs) \<Longrightarrow> evs = []"
  by (drule (1) emitsD) (cases evs; simp)

lemma reclaimed_silent:
  "emits (\<lambda>ev. False)
     (andthen (list_item raw_message 0) (\<lambda>field.
        if field \<noteq> Utf8 ''value'' then raise AssertionError
        else andthen (bytes_decode key) (\<lambda>k.
               andthen (list_item raw_message 1) (\<lambda>b.
                 andthen (bytes_decode b) (\<lambda>v. ret (Some (k, v)))))))"
  by (auto intro!: emits_andthen)

lemma fresh_silent:
  "emits (\<lambda>ev. False)
     (andthen (list_item entries 0) (\<lambda>(key, raw_message).
        andthen (bytes_decode key) (\<lambda>k.
          case map_of raw_message (Utf8 ''value'') of
            None \<Rightarrow> raise (KeyError (CHR ''b'' # py_repr ''value''))
          | Some b \<Rightarrow> andthen (bytes_decode b) (\<lambda>v. ret (Some (k, v))))))"
  by (auto intro!: emits_andthen split: option.split prod.split)

lemma xautoclaimE:
  assumes "xautoclaim E c s = (out, s', evs)"
  obtains (ok) reply x where "redis_xautoclaim E c (world s) = (Inr reply, x)"
            "out = Return reply" "s' = s\<lparr>world := x\<rparr>" "evs = [Redis c]"
        | (failed) e x where "redis_xautoclaim E c (world s) = (Inl e, x)"
            "out = Raise e" "s' = s\<lparr>world := x\<rparr>" "evs = [RedisFailed c e]"
  using assms unfolding xautoclaim_def
  by (auto split: prod.splits sum.splits)

lemma xreadgroupE:
  assumes "xreadgroup E c s = (out, s', evs)"
  obtains (ok) reply x where "redis_xreadgroup E c (world s) = (Inr reply, x)"
            "out = Return reply" "s' = s\<lparr>world := x\<rparr>" "evs = [Redis c]"
        | (failed) e x where "redis_xreadgroup E c (world s) = (Inl e, x)"
            "out = Raise e" "s' = s\<lparr>world := x\<rparr>" "evs = [RedisFailed c e]"
  using assms unfolding xreadgroup_def
  by (auto split: prod.splits sum.splits)

text \<open>What \<^verbatim>\<open>receive_message\<close> does when no entry was reclaimed.\<close>

lemma read_fresh:
  assumes "andthen (xreadgroup E c) (\<lambda>raw_messages.
             case raw_messages of
               [] \<Rightarrow> ret None
             | (stream, entries) # rest \<Rightarrow>
                 andthen (list_item entries 0) (\<lambda>(key, raw_message).
                   andthen (bytes_decode key) (\<lambda>k.
                     case map_of raw_message (Utf8 ''value'') of
                       None \<Rightarrow> raise (KeyError (CHR ''b'' # py_repr ''value''))
                     | Some b \<Rightarrow> andthen (bytes_decode b) (\<lambda>v. ret (Some (k, v)))))) s
           = (out, s', evs)"
  shows "case redis_xreadgroup E c (world s) of
           (Inl e, y) \<Rightarrow> out = Raise e \<and> evs = [RedisFailed c e]
         | (Inr [], y) \<Rightarrow> out = Return None \<and> evs = [Redis c]
         | (Inr (fresh # others), y) \<Rightarrow> evs = [Redis c]"
  using assms
proof (cases rule: andthenE)
  case (ret reply s1 ev1 ev2)
  from ret(1) obtain x where r: "redis_xreadgroup E c (world s) = (Inr reply, x)"
    and ev1: "ev1 = [Redis c]"
    by (rule xreadgroupE) auto
  show ?thesis
  proof (cases reply)
    case Nil
    with ret r ev1 show ?thesis by (simp add: ret_def)
  next
    case (Cons fresh others)
    obtain stream entries where f: "fresh = (stream, entries)" by (cases fresh)
    from ret(2) Cons f have "ev2 = []"
      by (simp add: silent_events [OF fresh_silent])
    with ret(3) r ev1 Cons show ?thesis by simp
  qed
next
  case (exn e)
  from exn(1) show ?thesis by (rule xreadgroupE) (use exn in auto)
next
  case fuel
  from fuel(1) show ?thesis by (rule xreadgroupE) auto
qed

lemma receive_message_cases:
  assumes run: "receive_message E w s = (out, s', evs)"
  shows "case redis_xautoclaim E (autoclaim_cmd w) (world s) of
           (Inl e, x) \<Rightarrow> out = Raise e \<and> evs = [RedisFailed (autoclaim_cmd w) e]
         | (Inr [], x) \<Rightarrow>
             (case redis_xreadgroup E (readgroup_cmd w) x of
                (Inl e, y) \<Rightarrow>
                  out = Raise e \<and> evs = [Redis (autoclaim_cmd w), RedisFailed (readgroup_cmd w) e]
              | (Inr [], y) \<Rightarrow>
                  out = Return None \<and> evs = [Redis (autoclaim_cmd w), Redis (readgroup_cmd w)]
              | (Inr (fresh # others), y) \<Rightarrow>
                  evs = [Redis (autoclaim_cmd w), Redis (readgroup_cmd w)])
         | (Inr (None # rest), x) \<Rightarrow>
             (case redis_xreadgroup E (readgroup_cmd w) x of
                (Inl e, y) \<Rightarrow>
                  out = Raise e \<and> evs = [Redis (autoclaim_cmd w), RedisFailed (readgroup_cmd w) e]
              | (Inr [], y) \<Rightarrow>
                  out = Return None \<and> evs = [Redis (autoclaim_cmd w), Redis (readgroup_cmd w)]
              | (Inr (fresh # others), y) \<Rightarrow>
                  evs = [Redis (autoclaim_cmd w), Redis (readgroup_cmd w)])
         | (Inr (Some entry # rest), x) \<Rightarrow> evs = [Redis (autoclaim_cmd w)]"
  using run unfolding receive_message_def
proof (cases rule: andthenE)
  case (ret reply s1 ev1 ev2)
  from ret(1) obtain x where r: "redis_xautoclaim E (autoclaim_cmd w) (world s) = (Inr reply, x)"
    and s1: "s1 = s\<lparr>world := x\<rparr>" and ev1: "ev1 = [Redis (autoclaim_cmd w)]"
    by (rule xautoclaimE) auto
  have w1: "world s1 = x" using s1 by simp
  show ?thesis
  proof (cases reply)
    case Nil
    with ret(2) read_fresh [of E "readgroup_cmd w" s1 out s' ev2] w1 ret(3) r ev1
    show ?thesis by (auto split: prod.splits sum.splits list.splits)
  next
    case (Cons first rest)
    show ?thesis
    proof (cases first)
      case None
      with Cons ret(2) read_fresh [of E "readgroup_cmd w" s1 out s' ev2] w1 ret(3) r ev1
      show ?thesis by (auto split: prod.splits sum.splits list.splits)
    next
      case (Some entry)
      obtain key raw_message where e: "entry = (key, raw_message)" by (cases entry)
      from ret(2) Cons Some e have "ev2 = []"
        by (simp add: silent_events [OF reclaimed_silent])
      with ret(3) r ev1 Cons Some show ?thesis by simp
    qed
  qed
next
  case (exn e)
  from exn(1) show ?thesis by (rule xautoclaimE) (use exn in auto)
next
  case fuel
  from fuel(1) show ?thesis by (rule xautoclaimE) auto
qed

lemma iteration_starts_with_receive:
  assumes "receive_message E w s = (out, s', evs)"
  shows "take (length evs) (snd (snd (iteration n E w s))) = evs"
proof -
  obtain o2 s2 ev2 where it: "iteration n E w s = (o2, s2, ev2)" by (metis prod_cases3)
  have "\<exists>rest. ev2 = evs @ rest"
    using it unfolding iteration_def
  proof (cases rule: try_exceptE)
    case (handled e s1 ev1 ev3)
    from handled(1) assms have "\<exists>r. ev1 = evs @ r" by (auto elim!: andthenE)
    with handled(3) show ?thesis by auto
  next
    case (ret v)
    from ret(1) assms show ?thesis by (auto elim!: andthenE)
  next
    case fuel
    from fuel(1) assms show ?thesis by (auto elim!: andthenE)
  qed
  with it show ?thesis by auto
qed

text \<open>
  Claim C7 says that on every iteration \<^verbatim>\<open>receive_message\<close> first tries to reclaim at most
  one pending entry idle for at least 600000 ms, blocks for up to 1000 ms reading a fresh
  entry only when nothing was reclaimed, and returns none when both yield nothing. For a
  worker with the attributes of \<^verbatim>\<open>__init__\<close>: the first command is \<^verbatim>\<open>XAUTOCLAIM\<close> with the
  idle time \<^verbatim>\<open>600000\<close>, the start \<^verbatim>\<open>0-0\<close> and the count 1; when its reply begins with an
  entry that is the only command; otherwise \<^verbatim>\<open>XREADGROUP\<close> follows with the count 1 and
  the block time 1000, and an empty reply gives \<^verbatim>\<open>(None, None)\<close>. The events of an
  iteration begin with those of \<^verbatim>\<open>receive_message\<close>.
\<close>

theorem receive_message_order:
  assumes init: "initialised w"
    and run: "receive_message E w s = (out, s', evs)"
  shows "autoclaim_cmd w =
           XAUTOCLAIM (input_queue w) (input_queue w) (consumer_id w) ''600000'' ''0-0'' 1 \<and>
         readgroup_cmd w =
           XREADGROUP (input_queue w) (consumer_id w) (input_queue w) ''>'' 1 1000 \<and>
         (case redis_xautoclaim E (autoclaim_cmd w) (world s) of
           (Inl e, x) \<Rightarrow> out = Raise e \<and> evs = [RedisFailed (autoclaim_cmd w) e]
         | (Inr [], x) \<Rightarrow>
             (case redis_xreadgroup E (readgroup_cmd w) x of
                (Inl e, y) \<Rightarrow>
                  out = Raise e \<and> evs = [Redis (autoclaim_cmd w), RedisFailed (readgroup_cmd w) e]
              | (Inr [], y) \<Rightarrow>
                  out = Return None \<and> evs = [Redis (autoclaim_cmd w), Redis (readgroup_cmd w)]
              | (Inr (fresh # others), y) \<Rightarrow>
                  evs = [Redis (autoclaim_cmd w), Redis (readgroup_cmd w)])
         | (Inr (None # rest), x) \<Rightarrow>
             (case redis_xreadgroup E (readgroup_cmd w) x of
                (Inl e, y) \<Rightarrow>
                  out = Raise e \<and> evs = [Redis (autoclaim_cmd w), RedisFailed (readgroup_cmd w) e]
              | (Inr [], y) \<Rightarrow>
                  out = Return None \<and> evs = [Redis (autoclaim_cmd w), Redis (readgroup_cmd w)]
              | (Inr (fresh # others), y) \<Rightarrow>
                  evs = [Redis (autoclaim_cmd w), Redis (readgroup_cmd w)])
         | (Inr (Some entry # rest), x) \<Rightarrow> evs = [Redis (autoclaim_cmd w)]) \<and>
         take (length evs) (snd (snd (iteration n E w s))) = evs"
proof -
  from init have "max_processing_time w * 1000 = 600000" by (simp add: initialised_def)
  then have "autoclaim_cmd w =
           XAUTOCLAIM (input_queue w) (input_queue w) (consumer_id w) ''600000'' ''0-0'' 1"
    by (simp add: autoclaim_cmd_def str_int_reclaim)
  with receive_message_cases [OF run] iteration_starts_with_receive [OF run]
  show ?thesis by (simp add: readgroup_cmd_def)
qed

text \<open>On the concrete environment: nothing is pending and an entry is fresh; then an
  entry is pending.\<close>

theorem receive_message_order_witness:
  "snd (snd (receive_message demo_env (demo_worker None) (demo_state [] [] [] []))) =
     [Redis (XAUTOCLAIM ''queue'' ''queue'' ''worker-1'' ''600000'' ''0-0'' 1),
      Redis (XREADGROUP ''queue'' ''worker-1'' ''queue'' ''>'' 1 1000)] \<and>
   snd (snd (receive_message demo_env (demo_worker None) (reclaim_state ''value''))) =
     [Redis (XAUTOCLAIM ''queue'' ''queue'' ''worker-1'' ''600000'' ''0-0'' 1)]"
proof -
  let ?w = "demo_worker None"
  let ?s = "demo_state [] [] [] []"
  let ?r = "receive_message demo_env ?w ?s"
  let ?r2 = "receive_message demo_env ?w (reclaim_state ''value'')"
  have init: "initialised ?w" by (simp add: initialised_def demo_worker_def)
  have run: "?r = (fst ?r, fst (snd ?r), snd (snd ?r))" by simp
  have run2: "?r2 = (fst ?r2, fst (snd ?r2), snd (snd ?r2))" by simp
  have q: "input_queue ?w = ''queue''" "consumer_id ?w = ''worker-1''"
    by (simp_all add: demo_worker_def)
  have a: "\<And>c. redis_xautoclaim demo_env c (world ?s) =
     (Inr [], (world ?s)\<lparr>dw_pending := []\<rparr>)"
    by (simp add: demo_env_def demo_state_def)
  have b: "\<And>c. redis_xreadgroup demo_env c ((world ?s)\<lparr>dw_pending := []\<rparr>) =
     (Inr [(Utf8 ''queue'', [(Utf8 ''1-0'', [(Utf8 ''value'', Utf8 demo_payload)])])],
      (world ?s)\<lparr>dw_pending := [], dw_fresh := []\<rparr>)"
    by (simp add: demo_env_def demo_state_def)
  have a2: "\<And>c. redis_xautoclaim demo_env c (world (reclaim_state ''value'')) =
     (Inr [Some (Utf8 ''0-1'', [Utf8 ''value'', Utf8 demo_payload])],
      (world (reclaim_state ''value''))\<lparr>dw_pending := []\<rparr>)"
    by (simp add: demo_env_def reclaim_state_def)
  from receive_message_order [OF init run, of 3] receive_message_order [OF init run2, of 3]
  show ?thesis
    by (simp add: a b a2 q)
qed

text \<open>
  Claim C9 says that \<^verbatim>\<open>receive_message\<close> returns a reclaimed entry only when the entry's
  first field is named \<^verbatim>\<open>value\<close>, and that with any other first field it fails with an
  assertion error, so that the entry is neither returned to the loop nor acked. Here
  \<^verbatim>\<open>XAUTOCLAIM\<close> has replied with an entry whose first field is \<open>field\<close>: with another name
  than \<^verbatim>\<open>value\<close>, \<^verbatim>\<open>receive_message\<close> raises \<^verbatim>\<open>AssertionError\<close> after that one command, and the
  iteration only logs the error; and when \<^verbatim>\<open>receive_message\<close> returns an entry, the field
  was \<^verbatim>\<open>value\<close>.
\<close>

theorem reclaimed_entry_needs_value_field:
  assumes claimed: "redis_xautoclaim E (autoclaim_cmd w) (world s) =
                      (Inr (Some (key, field # others) # rest), x)"
  shows "(field \<noteq> Utf8 ''value'' \<longrightarrow>
            receive_message E w s =
              (Raise AssertionError, s\<lparr>world := x\<rparr>, [Redis (autoclaim_cmd w)]) \<and>
            iteration n E w s =
              (Return (), s\<lparr>world := x\<rparr>,
               [Redis (autoclaim_cmd w), Stderr (FailedToHandle AssertionError)]) \<and>
            \<not> list_ex is_xack (snd (snd (iteration n E w s)))) \<and>
         (\<forall>k v. fst (receive_message E w s) = Return (Some (k, v)) \<longrightarrow> field = Utf8 ''value'')"
proof -
  have xa: "xautoclaim E (autoclaim_cmd w) s =
      (Return (Some (key, field # others) # rest), s\<lparr>world := x\<rparr>, [Redis (autoclaim_cmd w)])"
    by (simp add: xautoclaim_def claimed)
  have rm: "receive_message E w s =
              (Raise AssertionError, s\<lparr>world := x\<rparr>, [Redis (autoclaim_cmd w)])"
    if "field \<noteq> Utf8 ''value''"
    unfolding receive_message_def
    by (simp add: andthen_def [of "xautoclaim E (autoclaim_cmd w)"] xa
        list_item_def andthen_ret raise_def that)
  have it: "iteration n E w s =
              (Return (), s\<lparr>world := x\<rparr>,
               [Redis (autoclaim_cmd w), Stderr (FailedToHandle AssertionError)])"
    if "field \<noteq> Utf8 ''value''"
    unfolding iteration_def
    by (simp add: try_except_def andthen_def [of "receive_message E w"] rm [OF that]
        stderr_write_def emit_def)
  have nx: "\<not> is_xack (Redis (autoclaim_cmd w))" by (simp add: autoclaim_cmd_def)
  have only: "field = Utf8 ''value''" if "fst (receive_message E w s) = Return (Some (k, v))"
    for k v
  proof (rule ccontr)
    assume "field \<noteq> Utf8 ''value''"
    from rm [OF this] that show False by simp
  qed
  from rm it nx only show ?thesis by simp
qed

text \<open>On the concrete environment: a pending entry whose first field is \<^verbatim>\<open>key\<close>, and one
  whose first field is \<^verbatim>\<open>value\<close>.\<close>

theorem reclaimed_entry_needs_value_field_witness:
  "iteration 3 demo_env (demo_worker None) (reclaim_state ''key'') =
     (Return (),
      (reclaim_state ''key'')\<lparr>world := (world (reclaim_state ''key''))\<lparr>dw_pending := []\<rparr>\<rparr>,
      [Redis (XAUTOCLAIM ''queue'' ''queue'' ''worker-1'' ''600000'' ''0-0'' 1),
       Stderr (FailedToHandle AssertionError)]) \<and>
   fst (receive_message demo_env (demo_worker None) (reclaim_state ''value'')) =
     Return (Some (''0-1'', demo_payload))"
proof -
  let ?w = "demo_worker None"
  have a: "redis_xautoclaim demo_env (autoclaim_cmd ?w) (world (reclaim_state ''key'')) =
     (Inr [Some (Utf8 ''0-1'', [Utf8 ''key'', Utf8 demo_payload])],
      (world (reclaim_state ''key''))\<lparr>dw_pending := []\<rparr>)"
    by (simp add: demo_env_def reclaim_state_def)
  have ne: "Utf8 ''key'' \<noteq> Utf8 ''value''" by simp
  have cmd: "autoclaim_cmd ?w = XAUTOCLAIM ''queue'' ''queue'' ''worker-1'' ''600000'' ''0-0'' 1"
    by (simp add: autoclaim_cmd_def demo_worker_def str_int_reclaim)
  have r: "fst (receive_message demo_env ?w (reclaim_state ''value'')) =
     Return (Some (''0-1'', demo_payload))"
    by (simp add: receive_message_def xautoclaim_def autoclaim_cmd_def list_item_def
        bytes_decode_def reclaim_state_def demo_env_def demo_state_def andthen_def ret_def)
  from reclaimed_entry_needs_value_field [OF a, of 3] ne cmd r show ?thesis by simp
qed

subsection \<open>C8: model_id is never read\<close>

lemma autoclaim_cmd_model_id: "autoclaim_cmd (w\<lparr>model_id := m\<rparr>) = autoclaim_cmd w"
  by (simp add: autoclaim_cmd_def)

lemma readgroup_cmd_model_id: "readgroup_cmd (w\<lparr>model_id := m\<rparr>) = readgroup_cmd w"
  by (simp add: readgroup_cmd_def)

lemma receive_message_model_id:
  "receive_message E (w\<lparr>model_id := m\<rparr>) = receive_message E w"
  unfolding receive_message_def autoclaim_cmd_model_id readgroup_cmd_model_id
  by (rule refl)

lemma encode_json_model_id: "encode_json E (w\<lparr>model_id := m\<rparr>) = encode_json E w"
  by (rule ext) (simp add: encode_json_def)

lemma encode_list_model_id: "encode_list E t (w\<lparr>model_id := m\<rparr>) objs = encode_list E t w objs"
proof (induction objs)
  case Nil
  show ?case by simp
next
  case (Cons obj objs)
  show ?case unfolding encode_list.simps encode_json_model_id Cons.IH by (rule refl)
qed

lemma gen_loop_model_id:
  "gen_loop n E t (w\<lparr>model_id := m\<rparr>) q acc lg = gen_loop n E t w q acc lg"
proof (induction n arbitrary: acc lg)
  case 0
  show ?case by simp
next
  case (Suc n)
  show ?case unfolding gen_loop.simps encode_list_model_id Suc.IH by (rule refl)
qed

lemma gen_finish_model_id:
  "gen_finish E t (w\<lparr>model_id := m\<rparr>) q acc lg = gen_finish E t w q acc lg"
  unfolding gen_finish_def encode_list_model_id by (rule refl)

lemma scalar_finish_model_id:
  "scalar_finish E t (w\<lparr>model_id := m\<rparr>) q lg = scalar_finish E t w q lg"
  unfolding scalar_finish_def encode_json_model_id by (rule refl)

lemma drive_model_id: "drive n E t (w\<lparr>model_id := m\<rparr>) q i = drive n E t w q i"
  unfolding drive_def gen_loop_model_id gen_finish_model_id scalar_finish_model_id
  by (rule refl)

lemma push_error_model_id: "push_error E (w\<lparr>model_id := m\<rparr>) q e = push_error E w q e"
  by (simp add: push_error_def)

lemma predict_timeout_model_id: "predict_timeout (w\<lparr>model_id := m\<rparr>) = predict_timeout w"
  by simp

lemma handle_message_model_id:
  "handle_message n E (w\<lparr>model_id := m\<rparr>) q msg = handle_message n E w q msg"
  unfolding handle_message_def drive_model_id push_error_model_id predict_timeout_model_id
  by (rule refl)

lemma ack_and_delete_model_id:
  "ack_and_delete E (w\<lparr>model_id := m\<rparr>) mid = ack_and_delete E w mid"
  by (simp add: ack_and_delete_def)

lemma queues_model_id:
  "predict_time_queue (w\<lparr>model_id := m\<rparr>) = predict_time_queue w"
  "setup_time_queue (w\<lparr>model_id := m\<rparr>) = setup_time_queue w"
  "stats_queue_length (w\<lparr>model_id := m\<rparr>) = stats_queue_length w"
  "input_queue (w\<lparr>model_id := m\<rparr>) = input_queue w"
  by simp_all

lemma process_message_model_id:
  "process_message n E (w\<lparr>model_id := m\<rparr>) mid q msg = process_message n E w mid q msg"
  unfolding process_message_def handle_message_model_id push_error_model_id
    ack_and_delete_model_id queues_model_id
  by (rule refl)

lemma iteration_model_id: "iteration n E (w\<lparr>model_id := m\<rparr>) = iteration n E w"
  unfolding iteration_def receive_message_model_id process_message_model_id queues_model_id
  by (rule refl)

lemma start_loop_model_id: "start_loop n E (w\<lparr>model_id := m\<rparr>) = start_loop n E w"
proof (induction n)
  case 0
  show ?case by simp
next
  case (Suc n)
  show ?case unfolding start_loop.simps iteration_model_id Suc.IH by (rule refl)
qed

lemma start_model_id: "start n E (w\<lparr>model_id := m\<rparr>) = start n E w"
  unfolding start_def start_loop_model_id queues_model_id by (rule refl)

text \<open>
  Claim C8 says that the worker's observable behaviour does not depend on the constructor
  argument \<^verbatim>\<open>model_id\<close>. For any two values of it, every operation of the worker is the
  same computation (the same outcome, state and events from every state), and
  \<^verbatim>\<open>__init__\<close> writes the same line and builds workers that differ in \<^verbatim>\<open>model_id\<close> only.
\<close>

theorem model_id_unobserved:
  "receive_message E (w\<lparr>model_id := m1\<rparr>) = receive_message E (w\<lparr>model_id := m2\<rparr>) \<and>
   handle_message n E (w\<lparr>model_id := m1\<rparr>) q msg = handle_message n E (w\<lparr>model_id := m2\<rparr>) q msg \<and>
   push_error E (w\<lparr>model_id := m1\<rparr>) q e = push_error E (w\<lparr>model_id := m2\<rparr>) q e \<and>
   encode_json E (w\<lparr>model_id := m1\<rparr>) = encode_json E (w\<lparr>model_id := m2\<rparr>) \<and>
   process_message n E (w\<lparr>model_id := m1\<rparr>) mid q msg =
     process_message n E (w\<lparr>model_id := m2\<rparr>) mid q msg \<and>
   iteration n E (w\<lparr>model_id := m1\<rparr>) = iteration n E (w\<lparr>model_id := m2\<rparr>) \<and>
   start n E (w\<lparr>model_id := m1\<rparr>) = start n E (w\<lparr>model_id := m2\<rparr>) \<and>
   snd (init host port queue url consumer m1 logq ptimeout db s) =
     snd (init host port queue url consumer m2 logq ptimeout db s) \<and>
   (\<exists>w1. fst (init host port queue url consumer m1 logq ptimeout db s) = Return w1 \<and>
         fst (init host port queue url consumer m2 logq ptimeout db s) =
           Return (w1\<lparr>model_id := m2\<rparr>))"
  by (simp add: receive_message_model_id handle_message_model_id push_error_model_id
      encode_json_model_id process_message_model_id iteration_model_id start_model_id init_def)

text \<open>Two workers on the concrete environment that differ in \<^verbatim>\<open>model_id\<close>.\<close>

theorem model_id_unobserved_witness:
  "start 3 demo_env ((demo_worker None)\<lparr>model_id := Some ''a''\<rparr>)
     (demo_state [] [] [Plain (JStr ''it worked!'')] []) =
   start 3 demo_env ((demo_worker None)\<lparr>model_id := Some ''b''\<rparr>)
     (demo_state [] [] [Plain (JStr ''it worked!'')] [])"
proof -
  have "start 3 demo_env ((demo_worker None)\<lparr>model_id := Some ''a''\<rparr>) =
        start 3 demo_env ((demo_worker None)\<lparr>model_id := Some ''b''\<rparr>)"
    using model_id_unobserved [where E = demo_env and w = "demo_worker None"
      and ?m1.0 = "Some ''a''" and ?m2.0 = "Some ''b''" and n = 3]
    by (rule conjunct2 [THEN conjunct2, THEN conjunct2, THEN conjunct2, THEN conjunct2,
          THEN conjunct2, THEN conjunct1])
  then show ?thesis by (rule fun_cong)
qed

end
